theory Spec2Isabelle
  imports Complex_Main
begin

section \<open>libsql-search: embedding helpers, indexer and search\<close>

text \<open>
  A shallow embedding of \<^verbatim>\<open>src/embeddings.ts\<close>, \<^verbatim>\<open>src/indexer.ts\<close> and
  \<^verbatim>\<open>src/search.ts\<close>. JavaScript numbers that are array lengths, counters or
  dimensionalities are natural numbers; the components of an embedding are only ever
  moved around by this code (never computed with), and are modelled as reals.
  A thrown \<^verbatim>\<open>Error(msg)\<close> or a rejected promise is the value \<open>Inl (Error msg)\<close>.
\<close>

datatype error = Error string

type_synonym number = real

subsection \<open>JavaScript array and string primitives used by the code\<close>

text \<open>\<^verbatim>\<open>arr.slice(0, n)\<close> for a non-negative \<open>n\<close>.\<close>

definition slice0 :: "'a list \<Rightarrow> nat \<Rightarrow> 'a list" where
  "slice0 arr n = take n arr"

text \<open>
  \<^verbatim>\<open>arr.splice(start, deleteCount, ...items)\<close>, returning the array \<open>arr\<close> has
  afterwards: \<open>start\<close> is clamped to the length, \<open>deleteCount\<close> to what is left.
\<close>

definition splice :: "'a list \<Rightarrow> nat \<Rightarrow> nat \<Rightarrow> 'a list \<Rightarrow> 'a list" where
  "splice arr start deleteCount items =
     (let s = min start (length arr);
          d = min deleteCount (length arr - s)
      in take s arr @ items @ drop (s + d) arr)"

text \<open>\<^verbatim>\<open>new Array(n).fill(v)\<close>.\<close>

definition array_fill :: "nat \<Rightarrow> 'a \<Rightarrow> 'a list" where
  "array_fill n v = replicate n v"

text \<open>\<^verbatim>\<open>parts.join(sep)\<close> on an array of strings.\<close>

fun join :: "string \<Rightarrow> string list \<Rightarrow> string" where
  "join sep [] = []"
| "join sep [x] = x"
| "join sep (x # y # ys) = x @ sep @ join sep (y # ys)"

text \<open>Truthiness of a string value, and of an optional (possibly undefined) one.\<close>

definition truthy :: "string \<Rightarrow> bool" where
  "truthy s = (s \<noteq> [])"

fun truthy_opt :: "string option \<Rightarrow> bool" where
  "truthy_opt None = False"
| "truthy_opt (Some s) = truthy s"

subsection \<open>embeddings.ts: padEmbedding\<close>

definition padEmbedding :: "number list \<Rightarrow> nat \<Rightarrow> number list" where
  "padEmbedding embedding targetDimensions =
     (if length embedding = targetDimensions then embedding
      else if length embedding > targetDimensions then slice0 embedding targetDimensions
      else splice (array_fill targetDimensions 0) 0 (length embedding) embedding)"

subsection \<open>embeddings.ts: prepareTextForEmbedding\<close>

record fields =
  title :: "string option"
  description :: "string option"
  content :: "string option"
  tags :: "string list option"

definition newline2 :: string where
  "newline2 = [CHR 0x0A, CHR 0x0A]"

text \<open>The condition \<^verbatim>\<open>fields.tags && fields.tags.length > 0\<close>.\<close>

fun tags_present :: "string list option \<Rightarrow> bool" where
  "tags_present None = False"
| "tags_present (Some ts) = (length ts > 0)"

definition prepareTextForEmbedding :: "fields \<Rightarrow> string" where
  "prepareTextForEmbedding f =
     (let parts0 = [];
          parts1 = (if truthy_opt (title f) then parts0 @ [the (title f)] else parts0);
          parts2 = (if truthy_opt (description f) then parts1 @ [the (description f)] else parts1);
          parts3 = (if tags_present (tags f)
                    then parts2 @ [''Tags: '' @ join '', '' (the (tags f))] else parts2);
          parts4 = (if truthy_opt (content f) then parts3 @ [the (content f)] else parts3)
      in join newline2 (filter truthy parts4))"

text \<open>
  The specification's wording of the same function: each present, non-empty part in the
  order title, description, tags line, content, joined by one blank line.
\<close>

fun present_part :: "string option \<Rightarrow> string list" where
  "present_part None = []"
| "present_part (Some s) = (if s = [] then [] else [s])"

fun present_tags :: "string list option \<Rightarrow> string list" where
  "present_tags None = []"
| "present_tags (Some ts) = (if ts = [] then [] else [''Tags: '' @ join '', '' ts])"

definition prepare_spec :: "fields \<Rightarrow> string" where
  "prepare_spec f =
     join newline2
       (present_part (title f) @ present_part (description f) @
        present_tags (tags f) @ present_part (content f))"

subsection \<open>More string primitives\<close>

definition startsWith :: "string \<Rightarrow> string \<Rightarrow> bool" where
  "startsWith s p = (take (length p) s = p)"

definition endsWith :: "string \<Rightarrow> string \<Rightarrow> bool" where
  "endsWith s p = (length p \<le> length s \<and> drop (length s - length p) s = p)"

text \<open>\<^verbatim>\<open>s.split(c)\<close> for a one-character separator; the result is never empty.\<close>

fun split_on :: "char \<Rightarrow> string \<Rightarrow> string list" where
  "split_on c [] = [[]]"
| "split_on c (x # xs) =
     (if x = c then [] # split_on c xs
      else (case split_on c xs of [] \<Rightarrow> [[x]] | p # ps \<Rightarrow> (x # p) # ps))"

text \<open>\<^verbatim>\<open>arr.pop()\<close>: the last element, undefined on an empty array.\<close>

definition pop :: "'a list \<Rightarrow> 'a option" where
  "pop xs = (if xs = [] then None else Some (last xs))"

text \<open>\<^verbatim>\<open>s.replace(/a/g, b)\<close> for single characters \<open>a\<close> and \<open>b\<close>.\<close>

definition replace_all :: "char \<Rightarrow> char \<Rightarrow> string \<Rightarrow> string" where
  "replace_all a b s = map (\<lambda>c. if c = a then b else c) s"

text \<open>
  \<^verbatim>\<open>s.replace(/\.(md|markdown)$/, '')\<close>: without the multiline flag the pattern matches
  only at the very end of \<open>s\<close>, and \<open>s\<close> cannot end in both alternatives.
\<close>

definition strip_md :: "string \<Rightarrow> string" where
  "strip_md s =
     (if endsWith s ''.md'' then take (length s - 3) s
      else if endsWith s ''.markdown'' then take (length s - 9) s
      else s)"

subsection \<open>Paths (Node's POSIX \<^verbatim>\<open>path\<close> module)\<close>

text \<open>
  A directory path is its resolved list of components. \<open>path_join dir name\<close> is
  \<^verbatim>\<open>join(dir, name)\<close> for an entry name of a directory listing; \<open>relative\<close> drops the
  common prefix of two resolved paths and climbs out of what is left of the first.
\<close>

type_synonym path = "string list"

definition path_join :: "path \<Rightarrow> string \<Rightarrow> path" where
  "path_join dir name = dir @ [name]"

fun common_prefix :: "'a list \<Rightarrow> 'a list \<Rightarrow> nat" where
  "common_prefix (x # xs) (y # ys) = (if x = y then Suc (common_prefix xs ys) else 0)"
| "common_prefix _ _ = 0"

definition relative :: "path \<Rightarrow> path \<Rightarrow> string" where
  "relative from to =
     (let k = common_prefix from to
      in join ''/'' (replicate (length from - k) ''..'' @ drop k to))"

text \<open>
  \<^verbatim>\<open>dirname(p)\<close>: scanning from the end and never looking at index 0, skip the
  trailing slashes; the next slash met is where the directory part ends.
\<close>

definition dirname :: "string \<Rightarrow> string" where
  "dirname p =
     (if p = [] then ''.''
      else
        let hasRoot = (hd p = CHR ''/'');
            body = rev (dropWhile (\<lambda>c. c = CHR ''/'') (rev (tl p)));
            cut = rev (dropWhile (\<lambda>c. c \<noteq> CHR ''/'') (rev body))
        in if cut = [] then (if hasRoot then ''/'' else ''.'')
           else if hasRoot \<and> length cut = 1 then ''//''
           else hd p # butlast cut)"

text \<open>
  \<^verbatim>\<open>extname(name)\<close> for an entry name (no slash in it): from the last dot on, and
  empty when there is no dot, when the only dot is the first character, or for \<^verbatim>\<open>..\<close>.
\<close>

definition extname :: "string \<Rightarrow> string" where
  "extname name =
     (let ext = rev (takeWhile (\<lambda>c. c \<noteq> CHR ''.'') (rev name))
      in if CHR ''.'' \<notin> set name then []
         else if length ext + 1 = length name then []
         else if name = ''..'' then []
         else CHR ''.'' # ext)"

subsection \<open>indexer.ts: findFiles\<close>

text \<open>
  What \<^verbatim>\<open>readdir(dir, {withFileTypes: true})\<close> sees: an entry is a directory with its
  own listing, a directory whose listing fails, or anything else (a file).
\<close>

datatype dirent = FileEnt string | DirEnt string "dirent list" | DirDenied string error

fun name :: "dirent \<Rightarrow> string" where
  "name (FileEnt n) = n"
| "name (DirEnt n es) = n"
| "name (DirDenied n e) = n"

fun isDirectory :: "dirent \<Rightarrow> bool" where
  "isDirectory (FileEnt n) = False"
| "isDirectory (DirEnt n es) = True"
| "isDirectory (DirDenied n e) = True"

record file_info =
  fullPath :: path
  relativePath :: string
  folder :: string

text \<open>
  \<open>findFiles d dir baseDir extensions exclude\<close> where \<open>d\<close> is what is on disk at \<open>dir\<close>;
  \<open>scanEntries\<close> is the loop over the listing. An error of a nested call ends the scan.
\<close>

fun findFiles :: "dirent \<Rightarrow> path \<Rightarrow> path \<Rightarrow> string list \<Rightarrow> string list \<Rightarrow> error + file_info list"
  and scanEntries :: "dirent list \<Rightarrow> path \<Rightarrow> path \<Rightarrow> string list \<Rightarrow> string list \<Rightarrow> error + file_info list"
where
  "findFiles (DirEnt n entries) dir baseDir extensions exclude =
     scanEntries entries dir baseDir extensions exclude"
| "findFiles (DirDenied n e) dir baseDir extensions exclude = Inl e"
| "findFiles (FileEnt n) dir baseDir extensions exclude = Inl (Error ''ENOTDIR: not a directory'')"
| "scanEntries [] dir baseDir extensions exclude = Inr []"
| "scanEntries (entry # rest) dir baseDir extensions exclude =
     (let fullPath = path_join dir (name entry) in
      if isDirectory entry then
        (if \<not> startsWith (name entry) ''.'' \<and> name entry \<notin> set exclude then
           (case findFiles entry fullPath baseDir extensions exclude of
              Inl e \<Rightarrow> Inl e
            | Inr subFiles \<Rightarrow>
                (case scanEntries rest dir baseDir extensions exclude of
                   Inl e \<Rightarrow> Inl e
                 | Inr files \<Rightarrow> Inr (subFiles @ files)))
         else scanEntries rest dir baseDir extensions exclude)
      else if extname (name entry) \<in> set extensions then
        (let relativePath = relative baseDir fullPath;
             folder = dirname relativePath;
             found = \<lparr>fullPath = fullPath, relativePath = relativePath,
                      folder = (if folder = ''.'' then ''root'' else folder)\<rparr>
         in case scanEntries rest dir baseDir extensions exclude of
              Inl e \<Rightarrow> Inl e
            | Inr files \<Rightarrow> Inr (found # files))
      else scanEntries rest dir baseDir extensions exclude)"

subsection \<open>The store behind the client\<close>

text \<open>
  A table as \<^verbatim>\<open>createTable\<close> declares it: the rows in insertion order and the
  \<^verbatim>\<open>AUTOINCREMENT\<close> counter. The columns \<^verbatim>\<open>tags\<close> and \<^verbatim>\<open>embedding\<close> are nullable.
  The store also keeps the statements it has executed for \<^verbatim>\<open>client.execute\<close>,
  oldest first.
\<close>

record row =
  row_id :: nat
  row_slug :: string
  row_title :: string
  row_content :: string
  row_folder :: string
  row_tags :: "string option"
  row_embedding :: "number list option"
  row_created_at :: string
  row_updated_at :: string

record table =
  rows :: "row list"
  seq :: nat

datatype statement = Delete string | Insert string | Select string

record store =
  tables :: "string \<rightharpoonup> table"
  executed :: "statement list"

subsection \<open>What the code consumes from outside\<close>

record response =
  ok :: bool
  body_text :: "error + string"
  body_json :: "error + number list list"

record frontMatter =
  fm_title :: "string option"
  fm_description :: "string option"
  fm_tags :: "string list option"

text \<open>
  The environment, the embedding backends, the file reader, the front-matter parser,
  the JSON codec for tag lists and the database engine's own checks and functions.
  \<open>pipeline_load\<close> and \<open>import_gemini\<close> are \<open>None\<close> when loading succeeds;
  \<open>embedContent key text\<close> is \<^verbatim>\<open>result.embedding.values\<close> of a client built with
  \<open>key\<close>; \<open>body_json\<close> of a response lists the \<^verbatim>\<open>embedding\<close> of each element of
  \<^verbatim>\<open>data.data\<close>; \<open>fm_tags\<close> is \<open>Some\<close> exactly when \<^verbatim>\<open>frontMatter.tags\<close> is an array.
  Front-matter values are strings and string arrays, as the declared types of
  \<^verbatim>\<open>IndexedDocument\<close> and of \<^verbatim>\<open>prepareTextForEmbedding\<close> have them.
\<close>

record world =
  env_GEMINI_API_KEY :: "string option"
  env_OPENAI_API_KEY :: "string option"
  pipeline_load :: "error option"
  feature_extraction :: "string \<Rightarrow> error + number list"
  import_gemini :: "error option"
  embedContent :: "string \<Rightarrow> string \<Rightarrow> error + number list"
  fetch :: "string \<Rightarrow> string \<Rightarrow> string \<Rightarrow> nat \<Rightarrow> error + response"
  readFile :: "path \<Rightarrow> error + string"
  matter :: "string \<Rightarrow> error + frontMatter \<times> string"
  JSON_stringify :: "string list \<Rightarrow> string"
  JSON_parse :: "string \<Rightarrow> error + string list"
  engine_rejects :: "row \<Rightarrow> row list \<Rightarrow> bool"
  vector_distance_cos :: "number list \<Rightarrow> number list \<Rightarrow> error + number"
  datetime_now :: string

subsection \<open>embeddings.ts: generateEmbedding\<close>

text \<open>
  \<^verbatim>\<open>providerCache\<close> (is the local model loaded; the key the cached Gemini client was
  built with) and the calls made to the outside so far, oldest first.
\<close>

datatype call =
    LoadLocalModel
  | ExtractFeatures string
  | ConstructGemini string
  | EmbedContent string string
  | Fetch string string string nat

record estate =
  cache_local :: bool
  cache_gemini :: "string option"
  calls :: "call list"

text \<open>\<^verbatim>\<open>a || b\<close> on optional strings.\<close>

definition or_else :: "string option \<Rightarrow> string option \<Rightarrow> string option" where
  "or_else a b = (if truthy_opt a then a else b)"

definition generateLocalEmbedding ::
  "world \<Rightarrow> estate \<Rightarrow> string \<Rightarrow> nat \<Rightarrow> (error + number list) \<times> estate" where
  "generateLocalEmbedding w s text targetDimensions =
     (let loaded =
        (if \<not> cache_local s then
           (case pipeline_load w of
              Some e \<Rightarrow> Inl (e, s\<lparr>calls := calls s @ [LoadLocalModel]\<rparr>)
            | None \<Rightarrow> Inr (s\<lparr>cache_local := True, calls := calls s @ [LoadLocalModel]\<rparr>))
         else Inr s)
      in case loaded of
           Inl (e, s1) \<Rightarrow> (Inl e, s1)
         | Inr s1 \<Rightarrow>
             (let s2 = s1\<lparr>calls := calls s1 @ [ExtractFeatures text]\<rparr>
              in case feature_extraction w text of
                   Inl e \<Rightarrow> (Inl e, s2)
                 | Inr embedding \<Rightarrow> (Inr (padEmbedding embedding targetDimensions), s2)))"

definition generateGeminiEmbedding ::
  "world \<Rightarrow> estate \<Rightarrow> string \<Rightarrow> string option \<Rightarrow> (error + number list) \<times> estate" where
  "generateGeminiEmbedding w s text apiKey =
     (let key = or_else apiKey (env_GEMINI_API_KEY w) in
      if \<not> truthy_opt key then
        (Inl (Error ''GEMINI_API_KEY is required for Gemini embeddings''), s)
      else
        (let built =
           (if cache_gemini s = None then
              (case import_gemini w of
                 Some e \<Rightarrow> Inl (e, s\<lparr>calls := calls s @ [ConstructGemini (the key)]\<rparr>)
               | None \<Rightarrow> Inr (s\<lparr>cache_gemini := key,
                                 calls := calls s @ [ConstructGemini (the key)]\<rparr>))
            else Inr s)
         in case built of
              Inl (e, s1) \<Rightarrow> (Inl e, s1)
            | Inr s1 \<Rightarrow>
                (let client = the (cache_gemini s1);
                     s2 = s1\<lparr>calls := calls s1 @ [EmbedContent client text]\<rparr>
                 in (embedContent w client text, s2))))"

definition generateOpenAIEmbedding ::
  "world \<Rightarrow> estate \<Rightarrow> string \<Rightarrow> string option \<Rightarrow> nat \<Rightarrow> (error + number list) \<times> estate" where
  "generateOpenAIEmbedding w s text apiKey dims =
     (let key = or_else apiKey (env_OPENAI_API_KEY w) in
      if \<not> truthy_opt key then
        (Inl (Error ''OPENAI_API_KEY is required for OpenAI embeddings''), s)
      else
        (let model = (if dims \<le> 1536 then ''text-embedding-3-small''
                      else ''text-embedding-3-large'');
             s1 = s\<lparr>calls := calls s @ [Fetch (the key) text model dims]\<rparr>
         in case fetch w (the key) text model dims of
              Inl e \<Rightarrow> (Inl e, s1)
            | Inr response \<Rightarrow>
                if \<not> ok response then
                  (case body_text response of
                     Inl e \<Rightarrow> (Inl e, s1)
                   | Inr err \<Rightarrow> (Inl (Error (''OpenAI API error: '' @ err)), s1))
                else
                  (case body_json response of
                     Inl e \<Rightarrow> (Inl e, s1)
                   | Inr [] \<Rightarrow> (Inl (Error ''TypeError: data.data[0] is undefined''), s1)
                   | Inr (embedding # others) \<Rightarrow> (Inr embedding, s1))))"

record EmbeddingOptions =
  provider :: "string option"
  apiKey :: "string option"
  dimensions :: "nat option"
  maxLength :: "nat option"

definition generateEmbedding ::
  "world \<Rightarrow> estate \<Rightarrow> string \<Rightarrow> EmbeddingOptions \<Rightarrow> (error + number list) \<times> estate" where
  "generateEmbedding w s text options =
     (let prov = (case provider options of None \<Rightarrow> ''local'' | Some p \<Rightarrow> p);
          dims = (case dimensions options of None \<Rightarrow> 768 | Some d \<Rightarrow> d);
          maxLen = (case maxLength options of None \<Rightarrow> 8000 | Some m \<Rightarrow> m);
          truncated = take maxLen text
      in if prov = ''local'' then generateLocalEmbedding w s truncated dims
         else if prov = ''gemini'' then generateGeminiEmbedding w s truncated (apiKey options)
         else if prov = ''openai'' then generateOpenAIEmbedding w s truncated (apiKey options) dims
         else (Inl (Error (''Unknown embedding provider: '' @ prov)), s))"

definition no_options :: EmbeddingOptions where
  "no_options = \<lparr>provider = None, apiKey = None, dimensions = None, maxLength = None\<rparr>"

subsection \<open>indexer.ts: processFile\<close>

record IndexedDocument =
  doc_slug :: string
  doc_title :: string
  doc_content :: string
  doc_folder :: string
  doc_tags :: "string list"
  doc_embedding :: "number list"
  doc_metadata :: frontMatter

text \<open>The slug: the extension stripped, then every backslash turned into a slash.\<close>

definition slug_of :: "string \<Rightarrow> string" where
  "slug_of relPath = replace_all (CHR 0x5C) CHR ''/'' (strip_md relPath)"

text \<open>
  \<^verbatim>\<open>frontMatter.title || relativePath.split('/').pop()?.replace(..).replace(/-/g, ' ') || 'Untitled'\<close>
\<close>

definition title_of :: "string option \<Rightarrow> string \<Rightarrow> string" where
  "title_of fmTitle relPath =
     (let derived =
        map_option (\<lambda>base. replace_all CHR ''-'' CHR '' '' (strip_md base))
          (pop (split_on CHR ''/'' relPath))
      in the (or_else (or_else fmTitle derived) (Some ''Untitled'')))"

definition processFile ::
  "world \<Rightarrow> estate \<Rightarrow> file_info \<Rightarrow> EmbeddingOptions \<Rightarrow> (error + IndexedDocument) \<times> estate" where
  "processFile w s file embeddingOptions =
     (case readFile w (fullPath file) of
        Inl e \<Rightarrow> (Inl e, s)
      | Inr text \<Rightarrow>
          (case matter w text of
             Inl e \<Rightarrow> (Inl e, s)
           | Inr (fm, markdown) \<Rightarrow>
               (let slug = slug_of (relativePath file);
                    ttl = title_of (fm_title fm) (relativePath file);
                    tgs = (case fm_tags fm of Some ts \<Rightarrow> ts | None \<Rightarrow> []);
                    embeddingText = prepareTextForEmbedding
                      \<lparr>title = Some ttl, description = fm_description fm,
                       content = Some markdown, tags = Some tgs\<rparr>
                in case generateEmbedding w s embeddingText embeddingOptions of
                     (Inl e, s') \<Rightarrow> (Inl e, s')
                   | (Inr embedding, s') \<Rightarrow>
                       (Inr \<lparr>doc_slug = slug, doc_title = ttl, doc_content = markdown,
                             doc_folder = folder file, doc_tags = tgs,
                             doc_embedding = embedding, doc_metadata = fm\<rparr>, s'))))"

subsection \<open>indexer.ts: the statements and insertDocument\<close>

text \<open>
  \<^verbatim>\<open>DELETE FROM t\<close> empties the table and keeps its counter. \<^verbatim>\<open>INSERT INTO t\<close> appends
  a row with the next id unless the slug is already there (\<^verbatim>\<open>slug TEXT UNIQUE\<close>) or
  the engine rejects the row for a reason of its own. Both fail on a missing table.
  The stored vector is the one passed in (its rounding to 32-bit floats is left out).
\<close>

definition execute_delete :: "store \<Rightarrow> string \<Rightarrow> error + store" where
  "execute_delete db tbl =
     (case tables db tbl of
        None \<Rightarrow> Inl (Error (''no such table: '' @ tbl))
      | Some t \<Rightarrow>
          Inr (db\<lparr>tables := (tables db)(tbl \<mapsto> t\<lparr>rows := []\<rparr>),
                  executed := executed db @ [Delete tbl]\<rparr>))"

definition execute_insert :: "world \<Rightarrow> store \<Rightarrow> string \<Rightarrow> IndexedDocument \<Rightarrow> error + store" where
  "execute_insert w db tbl d =
     (case tables db tbl of
        None \<Rightarrow> Inl (Error (''no such table: '' @ tbl))
      | Some t \<Rightarrow>
          (let r = \<lparr>row_id = seq t + 1, row_slug = doc_slug d, row_title = doc_title d,
                    row_content = doc_content d, row_folder = doc_folder d,
                    row_tags = Some (JSON_stringify w (doc_tags d)),
                    row_embedding = Some (doc_embedding d),
                    row_created_at = datetime_now w, row_updated_at = datetime_now w\<rparr>
           in if doc_slug d \<in> set (map row_slug (rows t)) then
                Inl (Error ''UNIQUE constraint failed: slug'')
              else if engine_rejects w r (rows t) then
                Inl (Error ''statement rejected by the engine'')
              else
                Inr (db\<lparr>tables := (tables db)(tbl \<mapsto> \<lparr>rows = rows t @ [r], seq = seq t + 1\<rparr>),
                        executed := executed db @ [Insert tbl]\<rparr>)))"

definition insertDocument :: "world \<Rightarrow> store \<Rightarrow> IndexedDocument \<Rightarrow> string \<Rightarrow> error + store" where
  "insertDocument w db document tbl = execute_insert w db tbl document"

subsection \<open>indexer.ts: indexContent\<close>

record counts =
  success :: nat
  failed :: nat
  total :: nat

text \<open>
  A progress callback returns \<open>None\<close>, or the error it throws. The loop over the files:
  the callback is called outside the \<^verbatim>\<open>try\<close>, so its error ends the run; an error of
  \<open>processFile\<close> or \<open>insertDocument\<close> is caught and counted.
\<close>

type_synonym progress = "nat \<Rightarrow> nat \<Rightarrow> string \<Rightarrow> error option"

fun report :: "progress option \<Rightarrow> nat \<Rightarrow> nat \<Rightarrow> string \<Rightarrow> error option" where
  "report None i n f = None"
| "report (Some cb) i n f = cb i n f"

fun index_loop ::
  "world \<Rightarrow> EmbeddingOptions \<Rightarrow> string \<Rightarrow> progress option \<Rightarrow> nat \<Rightarrow> nat \<Rightarrow> file_info list \<Rightarrow>
   estate \<Rightarrow> store \<Rightarrow> nat \<Rightarrow> nat \<Rightarrow> (error + nat \<times> nat) \<times> estate \<times> store" where
  "index_loop w eo tbl cb n i [] s db succ fail = (Inr (succ, fail), s, db)"
| "index_loop w eo tbl cb n i (file # rest) s db succ fail =
     (case report cb (i + 1) n (relativePath file) of
        Some e \<Rightarrow> (Inl e, s, db)
      | None \<Rightarrow>
          (case processFile w s file eo of
             (Inl e, s') \<Rightarrow> index_loop w eo tbl cb n (i + 1) rest s' db succ (fail + 1)
           | (Inr document, s') \<Rightarrow>
               (case insertDocument w db document tbl of
                  Inl e \<Rightarrow> index_loop w eo tbl cb n (i + 1) rest s' db succ (fail + 1)
                | Inr db' \<Rightarrow> index_loop w eo tbl cb n (i + 1) rest s' db' (succ + 1) fail)))"

record IndexerOptions =
  contentPath :: path
  embeddingOptions :: "EmbeddingOptions option"
  fileExtensions :: "string list option"
  exclude :: "string list option"
  tableName :: "string option"
  onProgress :: "progress option"

text \<open>
  The scan of \<^verbatim>\<open>indexContent\<close>, with the defaults filled in; \<open>disk\<close> is what is
  found at \<open>contentPath\<close>.
\<close>

definition scan :: "dirent \<Rightarrow> IndexerOptions \<Rightarrow> error + file_info list" where
  "scan disk options =
     findFiles disk (contentPath options) (contentPath options)
       (case fileExtensions options of None \<Rightarrow> [''.md'', ''.markdown''] | Some x \<Rightarrow> x)
       (case exclude options of
          None \<Rightarrow> [''node_modules'', ''.git'', ''dist'', ''build''] | Some x \<Rightarrow> x)"

definition indexContent ::
  "world \<Rightarrow> dirent \<Rightarrow> estate \<Rightarrow> store \<Rightarrow> IndexerOptions \<Rightarrow> (error + counts) \<times> estate \<times> store" where
  "indexContent w disk s db options =
     (let eo = (case embeddingOptions options of None \<Rightarrow> no_options | Some x \<Rightarrow> x);
          tbl = (case tableName options of None \<Rightarrow> ''articles'' | Some x \<Rightarrow> x)
      in case scan disk options of
           Inl e \<Rightarrow> (Inl e, s, db)
         | Inr files \<Rightarrow>
             if length files = 0 then (Inr \<lparr>success = 0, failed = 0, total = 0\<rparr>, s, db)
             else
               (case execute_delete db tbl of
                  Inl e \<Rightarrow> (Inl e, s, db)
                | Inr db1 \<Rightarrow>
                    (case index_loop w eo tbl (onProgress options) (length files) 0 files
                            s db1 0 0 of
                       (Inl e, s', db') \<Rightarrow> (Inl e, s', db')
                     | (Inr (succ, fail), s', db') \<Rightarrow>
                         (Inr \<lparr>success = succ, failed = fail, total = length files\<rparr>,
                          s', db'))))"

text \<open>
  What the claim about the counters says of one file, in terms of \<open>processFile\<close> and
  \<open>insertDocument\<close> alone: the file is a success when both return and a failure when
  either throws, and the next file sees the provider state and the store they leave.
  \<open>outcomes\<close> lists this verdict for each file of a run, in order.
\<close>

definition file_outcome ::
  "world \<Rightarrow> EmbeddingOptions \<Rightarrow> string \<Rightarrow> estate \<Rightarrow> store \<Rightarrow> file_info \<Rightarrow> bool \<times> estate \<times> store" where
  "file_outcome w eo tbl s db f =
     (case processFile w s f eo of
        (Inl e, s') \<Rightarrow> (False, s', db)
      | (Inr document, s') \<Rightarrow>
          (case insertDocument w db document tbl of
             Inl e \<Rightarrow> (False, s', db)
           | Inr db' \<Rightarrow> (True, s', db')))"

fun outcomes ::
  "world \<Rightarrow> EmbeddingOptions \<Rightarrow> string \<Rightarrow> file_info list \<Rightarrow> estate \<Rightarrow> store \<Rightarrow> bool list" where
  "outcomes w eo tbl [] s db = []"
| "outcomes w eo tbl (f # rest) s db =
     (case file_outcome w eo tbl s db f of
        (good, s', db') \<Rightarrow> good # outcomes w eo tbl rest s' db')"

subsection \<open>search.ts: search\<close>

record SearchResult =
  res_id :: nat
  res_slug :: string
  res_title :: string
  res_content :: string
  res_folder :: string
  res_tags :: "string list"
  res_distance :: number
  res_created_at :: string

text \<open>
  The \<^verbatim>\<open>SELECT\<close> of \<open>search\<close>: the rows \<^verbatim>\<open>WHERE embedding IS NOT NULL\<close>, each with
  its \<^verbatim>\<open>vector_distance_cos\<close> to the query vector (an error of the engine's function
  fails the statement), \<^verbatim>\<open>ORDER BY distance\<close>, \<^verbatim>\<open>LIMIT ?\<close>.
\<close>

fun with_distance :: "world \<Rightarrow> number list \<Rightarrow> row list \<Rightarrow> error + (row \<times> number) list" where
  "with_distance w q [] = Inr []"
| "with_distance w q (r # rs) =
     (case vector_distance_cos w (the (row_embedding r)) q of
        Inl e \<Rightarrow> Inl e
      | Inr d \<Rightarrow>
          (case with_distance w q rs of
             Inl e \<Rightarrow> Inl e
           | Inr ds \<Rightarrow> Inr ((r, d) # ds)))"

definition execute_select ::
  "world \<Rightarrow> store \<Rightarrow> string \<Rightarrow> number list \<Rightarrow> nat \<Rightarrow> (error + (row \<times> number) list) \<times> store" where
  "execute_select w db tbl q maxRows =
     (case tables db tbl of
        None \<Rightarrow> (Inl (Error (''no such table: '' @ tbl)), db)
      | Some t \<Rightarrow>
          (case with_distance w q (filter (\<lambda>r. row_embedding r \<noteq> None) (rows t)) of
             Inl e \<Rightarrow> (Inl e, db)
           | Inr ds \<Rightarrow>
               (Inr (take maxRows (sort_key snd ds)),
                db\<lparr>executed := executed db @ [Select tbl]\<rparr>)))"

text \<open>\<^verbatim>\<open>results.rows.map(row => ...)\<close>; \<^verbatim>\<open>JSON.parse\<close> may throw.\<close>

fun format_rows :: "world \<Rightarrow> (row \<times> number) list \<Rightarrow> error + SearchResult list" where
  "format_rows w [] = Inr []"
| "format_rows w ((r, d) # rest) =
     (case JSON_parse w (the (or_else (row_tags r) (Some ''[]''))) of
        Inl e \<Rightarrow> Inl e
      | Inr ts \<Rightarrow>
          (case format_rows w rest of
             Inl e \<Rightarrow> Inl e
           | Inr out \<Rightarrow>
               Inr (\<lparr>res_id = row_id r, res_slug = row_slug r, res_title = row_title r,
                     res_content = row_content r, res_folder = row_folder r,
                     res_tags = ts, res_distance = d,
                     res_created_at = row_created_at r\<rparr> # out)))"

record SearchOptions =
  query :: string
  limit :: "nat option"
  search_tableName :: "string option"
  search_embeddingOptions :: "EmbeddingOptions option"

definition search ::
  "world \<Rightarrow> estate \<Rightarrow> store \<Rightarrow> SearchOptions \<Rightarrow> (error + SearchResult list) \<times> estate \<times> store" where
  "search w s db options =
     (let maxRows = (case limit options of None \<Rightarrow> 10 | Some l \<Rightarrow> l);
          tbl = (case search_tableName options of None \<Rightarrow> ''articles'' | Some x \<Rightarrow> x);
          eo = (case search_embeddingOptions options of None \<Rightarrow> no_options | Some x \<Rightarrow> x)
      in case generateEmbedding w s (query options) eo of
           (Inl e, s') \<Rightarrow> (Inl e, s', db)
         | (Inr queryEmbedding, s') \<Rightarrow>
             (case execute_select w db tbl queryEmbedding maxRows of
                (Inl e, db') \<Rightarrow> (Inl e, s', db')
              | (Inr results, db') \<Rightarrow> (format_rows w results, s', db')))"

subsection \<open>The options in effect\<close>

text \<open>
  The values the destructuring defaults of \<^verbatim>\<open>generateEmbedding\<close>, \<^verbatim>\<open>indexContent\<close>
  and \<^verbatim>\<open>search\<close> leave in effect, for use in the statements below.
\<close>

definition provider_of :: "EmbeddingOptions \<Rightarrow> string" where
  "provider_of eo = (case provider eo of None \<Rightarrow> ''local'' | Some p \<Rightarrow> p)"

definition dimensions_of :: "EmbeddingOptions \<Rightarrow> nat" where
  "dimensions_of eo = (case dimensions eo of None \<Rightarrow> 768 | Some d \<Rightarrow> d)"

definition embedding_options_of :: "IndexerOptions \<Rightarrow> EmbeddingOptions" where
  "embedding_options_of options =
     (case embeddingOptions options of None \<Rightarrow> no_options | Some x \<Rightarrow> x)"

definition table_of :: "IndexerOptions \<Rightarrow> string" where
  "table_of options = (case tableName options of None \<Rightarrow> ''articles'' | Some x \<Rightarrow> x)"

definition search_options_of :: "SearchOptions \<Rightarrow> EmbeddingOptions" where
  "search_options_of options =
     (case search_embeddingOptions options of None \<Rightarrow> no_options | Some x \<Rightarrow> x)"

definition search_table_of :: "SearchOptions \<Rightarrow> string" where
  "search_table_of options =
     (case search_tableName options of None \<Rightarrow> ''articles'' | Some x \<Rightarrow> x)"

definition limit_of :: "SearchOptions \<Rightarrow> nat" where
  "limit_of options = (case limit options of None \<Rightarrow> 10 | Some l \<Rightarrow> l)"

subsection \<open>Where the files of a tree are\<close>

text \<open>
  The component paths of all non-directory entries below a listing, whatever their
  names: the locations a discovered file can have. An entry name of a real listing is
  not empty and has no slash in it.
\<close>

fun entry_paths :: "dirent \<Rightarrow> path list"
  and listing_paths :: "dirent list \<Rightarrow> path list"
where
  "entry_paths (FileEnt n) = [[n]]"
| "entry_paths (DirEnt n es) = map ((#) n) (listing_paths es)"
| "entry_paths (DirDenied n e) = []"
| "listing_paths [] = []"
| "listing_paths (e # es) = entry_paths e @ listing_paths es"

fun listing :: "dirent \<Rightarrow> dirent list" where
  "listing (DirEnt n es) = es"
| "listing d = []"

definition wf_name :: "string \<Rightarrow> bool" where
  "wf_name n = (n \<noteq> [] \<and> CHR ''/'' \<notin> set n)"

fun wf_dirent :: "dirent \<Rightarrow> bool"
  and wf_listing :: "dirent list \<Rightarrow> bool"
where
  "wf_dirent (FileEnt n) = wf_name n"
| "wf_dirent (DirEnt n es) = (wf_name n \<and> wf_listing es)"
| "wf_dirent (DirDenied n e) = wf_name n"
| "wf_listing [] = True"
| "wf_listing (e # es) = (wf_dirent e \<and> wf_listing es)"

text \<open>
  The folder of a file at the component path \<open>cs\<close> below the content root: the
  directory part of the path, or \<open>root\<close> when there is none.
\<close>

definition folder_of :: "path \<Rightarrow> string" where
  "folder_of cs = (if length cs \<le> 1 then ''root'' else join ''/'' (butlast cs))"

text \<open>
  A discovered file record describes the file at the component path \<open>cs\<close> below
  \<open>base\<close>: its full path, its relative path with slashes, its folder.
\<close>

definition located_at :: "path \<Rightarrow> path \<Rightarrow> file_info \<Rightarrow> bool" where
  "located_at base cs f =
     (fullPath f = base @ cs \<and> relativePath f = join ''/'' cs \<and> folder f = folder_of cs)"

text \<open>The title the claim describes when the front matter gives none.\<close>

definition filename_title :: "string \<Rightarrow> string" where
  "filename_title relPath =
     (let derived = replace_all CHR ''-'' CHR '' '' (strip_md (last (split_on CHR ''/'' relPath)))
      in if derived = [] then ''Untitled'' else derived)"

subsection \<open>A small concrete world\<close>

text \<open>
  A content tree with a file at the root, one in a folder, one whose front matter does
  not parse and one below an excluded directory; backends that answer every call; the
  cosine distance as it is on vectors of norm one, \<open>1 - a \<bullet> b\<close>.
\<close>

definition demo_disk :: dirent where
  "demo_disk =
     DirEnt ''content''
       [FileEnt ''root-file.md'',
        DirEnt ''nested'' [FileEnt ''my-article.md''],
        FileEnt ''broken.md'',
        DirEnt ''node_modules'' [FileEnt ''skipped.md'']]"

definition empty_disk :: dirent where
  "empty_disk = DirEnt ''content'' [DirEnt ''node_modules'' [FileEnt ''skipped.md'']]"

definition demo_readFile :: "path \<Rightarrow> error + string" where
  "demo_readFile p =
     (if p = [''site'', ''content'', ''root-file.md''] then Inr ''root text''
      else if p = [''site'', ''content'', ''nested'', ''my-article.md''] then Inr ''article text''
      else if p = [''site'', ''content'', ''broken.md''] then Inr ''broken text''
      else Inl (Error ''ENOENT''))"

definition demo_matter :: "string \<Rightarrow> error + frontMatter \<times> string" where
  "demo_matter text =
     (if text = ''root text'' then
        Inr (\<lparr>fm_title = Some ''Root File'', fm_description = Some ''About'',
              fm_tags = Some [''a'', ''b'']\<rparr>, ''Body one'')
      else if text = ''article text'' then
        Inr (\<lparr>fm_title = Some [], fm_description = None, fm_tags = None\<rparr>, ''Body two'')
      else Inl (Error ''YAMLException''))"

definition dot :: "number list \<Rightarrow> number list \<Rightarrow> number" where
  "dot a b = sum_list (map (\<lambda>(x, y). x * y) (zip a b))"

definition cosine_distance :: "number list \<Rightarrow> number list \<Rightarrow> error + number" where
  "cosine_distance a b =
     (if length a \<noteq> length b then Inl (Error ''vectors must have the same length'')
      else Inr (1 - dot a b))"

definition demo_world :: world where
  "demo_world =
     \<lparr>env_GEMINI_API_KEY = None, env_OPENAI_API_KEY = None,
      pipeline_load = None, feature_extraction = (\<lambda>text. Inr [1, 0]),
      import_gemini = None, embedContent = (\<lambda>key text. Inr (replicate 768 0)),
      fetch = (\<lambda>key text model dims.
        Inr \<lparr>ok = True, body_text = Inr [], body_json = Inr [replicate dims 0]\<rparr>),
      readFile = demo_readFile, matter = demo_matter,
      JSON_stringify = (\<lambda>ts. ''['' @ join '','' ts @ '']''),
      JSON_parse = (\<lambda>text. if text = ''[]'' then Inr [] else Inl (Error ''SyntaxError'')),
      engine_rejects = (\<lambda>r rs. False),
      vector_distance_cos = cosine_distance,
      datetime_now = ''2024-01-01 00:00:00''\<rparr>"

definition fresh :: estate where
  "fresh = \<lparr>cache_local = False, cache_gemini = None, calls = []\<rparr>"

definition demo_row :: "nat \<Rightarrow> string \<Rightarrow> number list option \<Rightarrow> row" where
  "demo_row i slug emb =
     \<lparr>row_id = i, row_slug = slug, row_title = slug, row_content = ''text'',
      row_folder = ''root'', row_tags = None, row_embedding = emb,
      row_created_at = ''2023-12-31 00:00:00'', row_updated_at = ''2023-12-31 00:00:00''\<rparr>"

definition demo_store :: store where
  "demo_store =
     \<lparr>tables = [''articles'' \<mapsto>
        \<lparr>rows = [demo_row 1 ''far'' (Some [0, 1]), demo_row 2 ''unembedded'' None,
                 demo_row 3 ''near'' (Some [1, 0])], seq = 3\<rparr>],
      executed = []\<rparr>"

definition demo_options :: IndexerOptions where
  "demo_options =
     \<lparr>contentPath = [''site'', ''content''], embeddingOptions = None, fileExtensions = None,
      exclude = None, tableName = None, onProgress = None\<rparr>"

text \<open>The same run with the Gemini backend and a requested dimensionality of 512.\<close>

definition gemini_512 :: IndexerOptions where
  "gemini_512 =
     demo_options\<lparr>embeddingOptions :=
       Some \<lparr>provider = Some ''gemini'', apiKey = Some ''secret'',
             dimensions = Some 512, maxLength = None\<rparr>\<rparr>"

text \<open>A query against the small store, and a store whose only row has no embedding.\<close>

definition demo_search :: SearchOptions where
  "demo_search =
     \<lparr>query = ''near things'', limit = None, search_tableName = None,
      search_embeddingOptions = Some (no_options\<lparr>dimensions := Some 2\<rparr>)\<rparr>"

definition unembedded_store :: store where
  "unembedded_store =
     \<lparr>tables = [''articles'' \<mapsto> \<lparr>rows = [demo_row 2 ''unembedded'' None], seq = 2\<rparr>],
      executed = []\<rparr>"

section \<open>Properties\<close>

subsection \<open>padEmbedding\<close>

lemma splice_fill_prefix:
  "length v \<le> n \<Longrightarrow> splice (array_fill n z) 0 (length v) v = v @ replicate (n - length v) z"
  by (simp add: splice_def array_fill_def Let_def min_def)

text \<open>
  Claim C4. For every vector \<open>v\<close> and every target dimensionality \<open>n\<close>,
  \<open>padEmbedding v n\<close> has length exactly \<open>n\<close>; it is \<open>v\<close> itself when
  \<open>v\<close> already has length \<open>n\<close>, the first \<open>n\<close> elements of \<open>v\<close> when \<open>v\<close> is
  longer, and \<open>v\<close> followed by \<open>n - length v\<close> zeros when \<open>v\<close> is shorter.
\<close>

theorem padEmbedding_spec:
  "length (padEmbedding v n) = n \<and>
   (length v = n \<longrightarrow> padEmbedding v n = v) \<and>
   (length v > n \<longrightarrow> padEmbedding v n = take n v) \<and>
   (length v < n \<longrightarrow> padEmbedding v n = v @ replicate (n - length v) 0)"
proof -
  have short: "padEmbedding v n = v @ replicate (n - length v) 0" if "length v < n"
    using that splice_fill_prefix [of v n 0] by (simp add: padEmbedding_def)
  have long: "padEmbedding v n = take n v" if "length v > n"
    using that by (simp add: padEmbedding_def slice0_def)
  have same: "padEmbedding v n = v" if "length v = n"
    using that by (simp add: padEmbedding_def)
  have "length (padEmbedding v n) = n"
  proof -
    consider "length v = n" | "length v > n" | "length v < n" by linarith
    then show ?thesis
    proof cases
      case 1 then show ?thesis using same by simp
    next
      case 2 then show ?thesis using long by simp
    next
      case 3 then show ?thesis using short by simp
    qed
  qed
  with short long same show ?thesis by blast
qed

theorem padEmbedding_spec_witness:
  "padEmbedding [1, 2, 3] 5 = [1, 2, 3, 0, 0] \<and>
   padEmbedding [1, 2, 3, 4, 5] 3 = [1, 2, 3] \<and>
   padEmbedding [1, 2, 3] 3 = [1, 2, 3]"
  using padEmbedding_spec [of "[1, 2, 3]" 5]
    padEmbedding_spec [of "[1, 2, 3, 4, 5]" 3]
    padEmbedding_spec [of "[1, 2, 3]" 3]
  by (simp add: numeral_eq_Suc)

subsection \<open>prepareTextForEmbedding\<close>

lemma pushed_part:
  "(if truthy_opt x then ps @ [the x] else ps) = ps @ present_part x"
  by (cases x) (simp_all add: truthy_def)

lemma pushed_tags:
  "(if tags_present x then ps @ [''Tags: '' @ join '', '' (the x)] else ps) = ps @ present_tags x"
  by (cases x) auto

lemma present_part_truthy: "filter truthy (present_part x) = present_part x"
  by (cases x) (simp_all add: truthy_def)

lemma present_tags_truthy: "filter truthy (present_tags x) = present_tags x"
  by (cases x) (simp_all add: truthy_def)

text \<open>
  Claim C5. For every record of optional fields, \<open>prepareTextForEmbedding\<close> returns the
  present, non-empty parts (title, description, the line \<open>Tags: \<close> with the tags joined
  by comma and space when there is at least one tag, content) in that order, joined by
  one blank line, with nothing for an absent or empty part. The two examples of the
  claim are the second and third conjunct.
\<close>

theorem prepareTextForEmbedding_spec:
  "prepareTextForEmbedding f = prepare_spec f \<and>
   prepareTextForEmbedding
     \<lparr>title = Some ''T'', description = Some ''D'', content = Some ''C'', tags = None\<rparr>
     = ''T'' @ newline2 @ ''D'' @ newline2 @ ''C'' \<and>
   prepareTextForEmbedding
     \<lparr>title = Some ''T'', description = None, content = None, tags = Some []\<rparr> = ''T''"
proof -
  have "prepareTextForEmbedding g = prepare_spec g" for g
    unfolding prepareTextForEmbedding_def prepare_spec_def Let_def pushed_part pushed_tags
    by (simp add: present_part_truthy present_tags_truthy)
  moreover have
    "prepare_spec
       \<lparr>title = Some ''T'', description = Some ''D'', content = Some ''C'', tags = None\<rparr>
     = ''T'' @ newline2 @ ''D'' @ newline2 @ ''C''"
    by (simp add: prepare_spec_def)
  moreover have
    "prepare_spec \<lparr>title = Some ''T'', description = None, content = None, tags = Some []\<rparr>
     = ''T''"
    by (simp add: prepare_spec_def)
  ultimately show ?thesis by simp
qed

subsection \<open>Configuration errors of generateEmbedding\<close>

text \<open>
  Claim C8. A call of \<open>generateEmbedding\<close> with provider \<open>gemini\<close> or \<open>openai\<close> and
  no usable API key, neither in the options nor in the provider's environment variable,
  fails with the error naming the missing key; a call with a provider name other than
  \<open>local\<close>, \<open>gemini\<close>, \<open>openai\<close> fails with the error naming that value. In
  each case the provider state is returned as it was: nothing was loaded, constructed or
  requested. Only an absent provider is replaced, by \<open>local\<close>.
\<close>

theorem generateEmbedding_configuration_errors:
  "(provider eo = Some ''gemini'' \<and> \<not> truthy_opt (apiKey eo) \<and> \<not> truthy_opt (env_GEMINI_API_KEY w) \<longrightarrow>
      generateEmbedding w s text eo =
        (Inl (Error ''GEMINI_API_KEY is required for Gemini embeddings''), s)) \<and>
   (provider eo = Some ''openai'' \<and> \<not> truthy_opt (apiKey eo) \<and> \<not> truthy_opt (env_OPENAI_API_KEY w) \<longrightarrow>
      generateEmbedding w s text eo =
        (Inl (Error ''OPENAI_API_KEY is required for OpenAI embeddings''), s)) \<and>
   (\<forall>p. provider eo = Some p \<and> p \<noteq> ''local'' \<and> p \<noteq> ''gemini'' \<and> p \<noteq> ''openai'' \<longrightarrow>
      generateEmbedding w s text eo = (Inl (Error (''Unknown embedding provider: '' @ p)), s)) \<and>
   (provider eo = None \<longrightarrow>
      generateEmbedding w s text eo = generateEmbedding w s text (eo\<lparr>provider := Some ''local''\<rparr>))"
proof -
  have gemini: "generateEmbedding w s text eo =
        (Inl (Error ''GEMINI_API_KEY is required for Gemini embeddings''), s)"
    if "provider eo = Some ''gemini''" "\<not> truthy_opt (apiKey eo)" "\<not> truthy_opt (env_GEMINI_API_KEY w)"
    using that
    by (simp add: generateEmbedding_def generateGeminiEmbedding_def or_else_def Let_def)
  have openai: "generateEmbedding w s text eo =
        (Inl (Error ''OPENAI_API_KEY is required for OpenAI embeddings''), s)"
    if "provider eo = Some ''openai''" "\<not> truthy_opt (apiKey eo)" "\<not> truthy_opt (env_OPENAI_API_KEY w)"
    using that
    by (simp add: generateEmbedding_def generateOpenAIEmbedding_def or_else_def Let_def)
  have unknown: "generateEmbedding w s text eo = (Inl (Error (''Unknown embedding provider: '' @ p)), s)"
    if "provider eo = Some p" "p \<noteq> ''local''" "p \<noteq> ''gemini''" "p \<noteq> ''openai''" for p
    using that by (simp add: generateEmbedding_def Let_def)
  have dflt: "generateEmbedding w s text eo = generateEmbedding w s text (eo\<lparr>provider := Some ''local''\<rparr>)"
    if "provider eo = None"
    using that by (simp add: generateEmbedding_def Let_def)
  from gemini openai unknown dflt show ?thesis by blast
qed

theorem generateEmbedding_configuration_errors_witness:
  "generateEmbedding demo_world fresh ''test'' (no_options\<lparr>provider := Some ''gemini''\<rparr>) =
     (Inl (Error ''GEMINI_API_KEY is required for Gemini embeddings''), fresh) \<and>
   generateEmbedding demo_world fresh ''test'' (no_options\<lparr>provider := Some ''openai''\<rparr>) =
     (Inl (Error ''OPENAI_API_KEY is required for OpenAI embeddings''), fresh) \<and>
   generateEmbedding demo_world fresh ''test'' (no_options\<lparr>provider := Some ''unknown''\<rparr>) =
     (Inl (Error ''Unknown embedding provider: unknown''), fresh)"
  using generateEmbedding_configuration_errors
      [of "no_options\<lparr>provider := Some ''gemini''\<rparr>" demo_world fresh "''test''"]
    generateEmbedding_configuration_errors
      [of "no_options\<lparr>provider := Some ''openai''\<rparr>" demo_world fresh "''test''"]
    generateEmbedding_configuration_errors
      [of "no_options\<lparr>provider := Some ''unknown''\<rparr>" demo_world fresh "''test''"]
  by (simp add: no_options_def demo_world_def)

subsection \<open>The title of a processed file\<close>

lemma split_on_not_Nil: "split_on c s \<noteq> []"
  by (induction s) (auto split: list.splits)

lemma title_of_cases:
  "title_of fmTitle p = (if truthy_opt fmTitle then the fmTitle else filename_title p)"
  by (simp add: title_of_def filename_title_def or_else_def pop_def split_on_not_Nil
      truthy_def Let_def)

lemma processFile_title:
  assumes "readFile w (fullPath f) = Inr text" and "matter w text = Inr (fm, md)"
    and "processFile w s f eo = (Inr d, s')"
  shows "doc_title d = title_of (fm_title fm) (relativePath f)"
  using assms by (auto simp: processFile_def Let_def split: sum.splits prod.splits)

text \<open>
  Claim C9. In \<open>processFile\<close> a front-matter title that is the empty string is treated
  as an absent one: the title of the document is then derived from the file name (the
  extension stripped, hyphens turned into spaces), and is \<open>Untitled\<close> only when that
  derivation is empty too. Only a non-empty front-matter title is taken as the title.
\<close>

theorem processFile_title_fallback:
  assumes "readFile w (fullPath f) = Inr text" and "matter w text = Inr (fm, md)"
    and "processFile w s f eo = (Inr d, s')"
  shows "(fm_title fm = None \<or> fm_title fm = Some [] \<longrightarrow>
            doc_title d = filename_title (relativePath f)) \<and>
         (\<forall>t. fm_title fm = Some t \<and> t \<noteq> [] \<longrightarrow> doc_title d = t)"
  using processFile_title [OF assms]
  by (auto simp: title_of_cases truthy_def)

theorem processFile_title_fallback_witness:
  "\<exists>d s'. processFile demo_world fresh
      \<lparr>fullPath = [''site'', ''content'', ''nested'', ''my-article.md''],
       relativePath = ''nested/my-article.md'', folder = ''nested''\<rparr> no_options = (Inr d, s') \<and>
     doc_title d = ''my article''"
proof -
  let ?f = "\<lparr>fullPath = [''site'', ''content'', ''nested'', ''my-article.md''],
       relativePath = ''nested/my-article.md'', folder = ''nested''\<rparr>"
  let ?fm = "\<lparr>fm_title = Some [], fm_description = None, fm_tags = None\<rparr>"
  have rd: "readFile demo_world (fullPath ?f) = Inr ''article text''"
    by (simp add: demo_world_def demo_readFile_def)
  have mt: "matter demo_world ''article text'' = Inr (?fm, ''Body two'')"
    by (simp add: demo_world_def demo_matter_def)
  obtain r s' where run: "processFile demo_world fresh ?f no_options = (r, s')"
    by (cases "processFile demo_world fresh ?f no_options")
  have "isl r = False"
    using run rd mt
    by (auto simp: processFile_def generateEmbedding_def generateLocalEmbedding_def
        no_options_def fresh_def demo_world_def Let_def split: sum.splits prod.splits)
  then obtain d where d: "r = Inr d" by (cases r) auto
  from processFile_title_fallback [OF rd mt run [unfolded d]]
  have "doc_title d = filename_title ''nested/my-article.md''" by simp
  also have "\<dots> = ''my article''"
    by (simp add: filename_title_def strip_md_def endsWith_def replace_all_def)
  finally show ?thesis using run d by blast
qed

subsection \<open>An empty scan\<close>

text \<open>
  Claim C2. When the scan of \<open>indexContent\<close> finds no file, the call returns the counters
  \<open>0, 0, 0\<close> and the store exactly as it was: its tables and the list of statements it
  has executed are unchanged, so no \<^verbatim>\<open>DELETE\<close> ran. A call that returns a different
  store has found at least one file.
\<close>

theorem indexContent_empty_scan:
  "(scan disk options = Inr [] \<longrightarrow>
      indexContent w disk s db options =
        (Inr \<lparr>success = 0, failed = 0, total = 0\<rparr>, s, db)) \<and>
   (indexContent w disk s db options = (res, s', db') \<and> db' \<noteq> db \<longrightarrow>
      (\<exists>files. scan disk options = Inr files \<and> files \<noteq> []))"
proof -
  have none: "indexContent w disk s db options =
        (Inr \<lparr>success = 0, failed = 0, total = 0\<rparr>, s, db)"
    if "scan disk options = Inr []"
    using that by (simp add: indexContent_def)
  have some: "\<exists>files. scan disk options = Inr files \<and> files \<noteq> []"
    if run: "indexContent w disk s db options = (res, s', db')" and changed: "db' \<noteq> db"
  proof (cases "scan disk options")
    case (Inl e)
    with run changed show ?thesis by (simp add: indexContent_def)
  next
    case (Inr files)
    show ?thesis
    proof (cases "files = []")
      case True
      with Inr run changed show ?thesis by (simp add: indexContent_def)
    next
      case False
      with Inr show ?thesis by simp
    qed
  qed
  from none some show ?thesis by blast
qed

lemma scan_empty_disk: "scan empty_disk demo_options = Inr []"
  by (simp add: scan_def empty_disk_def demo_options_def)

theorem indexContent_empty_scan_witness:
  "indexContent demo_world empty_disk fresh demo_store demo_options =
     (Inr \<lparr>success = 0, failed = 0, total = 0\<rparr>, fresh, demo_store)"
  using indexContent_empty_scan [of empty_disk demo_options demo_world fresh demo_store]
    scan_empty_disk
  by simp

subsection \<open>The counters of a run\<close>

lemma index_loop_counts:
  "index_loop w eo tbl cb n i files s db succ fail = (Inr (succ', fail'), s', db') \<Longrightarrow>
   succ' + fail' = succ + fail + length files"
proof (induction files arbitrary: i s db succ fail)
  case Nil
  then show ?case by simp
next
  case (Cons f rest)
  then show ?case
    by (fastforce split: option.splits prod.splits sum.splits)
qed

lemma index_loop_outcomes:
  "index_loop w eo tbl cb n i files s db succ fail = (Inr (succ', fail'), s', db') \<Longrightarrow>
   succ' = succ + length (filter id (outcomes w eo tbl files s db)) \<and>
   fail' = fail + length (filter Not (outcomes w eo tbl files s db))"
proof (induction files arbitrary: i s db succ fail)
  case Nil
  then show ?case by simp
next
  case (Cons f rest)
  from Cons.prems have cb: "report cb (i + 1) n (relativePath f) = None"
    by (cases "report cb (i + 1) n (relativePath f)") simp_all
  obtain pr s1 where pf: "processFile w s f eo = (pr, s1)"
    by (cases "processFile w s f eo")
  show ?case
  proof (cases pr)
    case (Inl e)
    with Cons.prems cb pf
    have "index_loop w eo tbl cb n (i + 1) rest s1 db succ (fail + 1) =
        (Inr (succ', fail'), s', db')"
      by simp
    from Cons.IH [OF this] pf Inl show ?thesis
      by (simp add: file_outcome_def)
  next
    case (Inr d)
    show ?thesis
    proof (cases "insertDocument w db d tbl")
      case ins: (Inl e)
      with Cons.prems cb pf Inr
      have "index_loop w eo tbl cb n (i + 1) rest s1 db succ (fail + 1) =
          (Inr (succ', fail'), s', db')"
        by simp
      from Cons.IH [OF this] pf Inr ins show ?thesis
        by (simp add: file_outcome_def)
    next
      case ins: (Inr db1)
      with Cons.prems cb pf Inr
      have "index_loop w eo tbl cb n (i + 1) rest s1 db1 (succ + 1) fail =
          (Inr (succ', fail'), s', db')"
        by simp
      from Cons.IH [OF this] pf Inr ins show ?thesis
        by (simp add: file_outcome_def)
    qed
  qed
qed

lemma index_loop_returns:
  "\<forall>i f. report cb i n f = None \<Longrightarrow>
   \<exists>succ' fail' s' db'.
     index_loop w eo tbl cb n i files s db succ fail = (Inr (succ', fail'), s', db')"
proof (induction files arbitrary: i s db succ fail)
  case Nil
  then show ?case by simp
next
  case (Cons f rest)
  then show ?case
    by (simp split: prod.splits sum.splits)
qed

text \<open>
  Claim C3. A run of \<open>indexContent\<close> that completes returns counters with
  \<open>success + failed = total\<close>, where \<open>total\<close> is the number of files the scan found.
  Each file moves exactly one counter, by its own outcome: \<open>success\<close> is the number of
  files for which \<open>processFile\<close> and \<open>insertDocument\<close> both returned, \<open>failed\<close> the
  number of files for which one of them threw (reading, parsing, embedding or
  inserting), each file being processed in the state its predecessors left. Such an
  error never ends the run: once files were found and the table cleared, only an error
  thrown by the progress callback does.
\<close>

theorem indexContent_counts:
  "(indexContent w disk s db options = (Inr c, s', db') \<longrightarrow>
      success c + failed c = total c \<and>
      (\<exists>files. scan disk options = Inr files \<and> total c = length files \<and>
         (files \<noteq> [] \<longrightarrow>
            (\<exists>db1. execute_delete db (table_of options) = Inr db1 \<and>
               success c = length (filter id
                 (outcomes w (embedding_options_of options) (table_of options) files s db1)) \<and>
               failed c = length (filter Not
                 (outcomes w (embedding_options_of options) (table_of options) files s db1)))))) \<and>
   (scan disk options = Inr found \<and> found \<noteq> [] \<and>
    tables db (table_of options) \<noteq> None \<and>
    (\<forall>i f. report (onProgress options) i (length found) f = None) \<longrightarrow>
      (\<exists>c s' db' db1. indexContent w disk s db options = (Inr c, s', db') \<and>
         total c = length found \<and> success c + failed c = length found \<and>
         execute_delete db (table_of options) = Inr db1 \<and>
         success c = length (filter id
           (outcomes w (embedding_options_of options) (table_of options) found s db1)) \<and>
         failed c = length (filter Not
           (outcomes w (embedding_options_of options) (table_of options) found s db1))))"
proof -
  let ?tbl = "table_of options"
  let ?eo = "embedding_options_of options"
  have completed: "success c + failed c = total c \<and>
      (\<exists>files. scan disk options = Inr files \<and> total c = length files \<and>
         (files \<noteq> [] \<longrightarrow>
            (\<exists>db1. execute_delete db ?tbl = Inr db1 \<and>
               success c = length (filter id (outcomes w ?eo ?tbl files s db1)) \<and>
               failed c = length (filter Not (outcomes w ?eo ?tbl files s db1)))))"
    if run: "indexContent w disk s db options = (Inr c, s', db')"
  proof (cases "scan disk options")
    case (Inl e)
    with run show ?thesis by (simp add: indexContent_def)
  next
    case (Inr files)
    show ?thesis
    proof (cases "files = []")
      case True
      with Inr run show ?thesis by (auto simp: indexContent_def)
    next
      case False
      from run Inr False obtain db1 succ fail where
        del: "execute_delete db ?tbl = Inr db1" and
        loop: "index_loop w ?eo ?tbl (onProgress options) (length files) 0 files s db1 0 0
                 = (Inr (succ, fail), s', db')" and
        c: "c = \<lparr>success = succ, failed = fail, total = length files\<rparr>"
        by (auto simp: indexContent_def table_of_def embedding_options_of_def Let_def
            split: sum.splits prod.splits)
      from index_loop_counts [OF loop] c have "success c + failed c = total c" by simp
      moreover from index_loop_outcomes [OF loop] c
      have "success c = length (filter id (outcomes w ?eo ?tbl files s db1)) \<and>
            failed c = length (filter Not (outcomes w ?eo ?tbl files s db1))"
        by simp
      ultimately show ?thesis using Inr c del by auto
    qed
  qed
  have returns: "\<exists>c s' db' db1. indexContent w disk s db options = (Inr c, s', db') \<and>
         total c = length found \<and> success c + failed c = length found \<and>
         execute_delete db ?tbl = Inr db1 \<and>
         success c = length (filter id (outcomes w ?eo ?tbl found s db1)) \<and>
         failed c = length (filter Not (outcomes w ?eo ?tbl found s db1))"
    if sc: "scan disk options = Inr found" and ne: "found \<noteq> []"
      and tb: "tables db ?tbl \<noteq> None"
      and cb: "\<forall>i f. report (onProgress options) i (length found) f = None"
  proof -
    from tb obtain db1 where del: "execute_delete db ?tbl = Inr db1"
      by (auto simp: execute_delete_def)
    from index_loop_returns [OF cb] obtain succ fail s' db' where
      loop: "index_loop w ?eo ?tbl (onProgress options) (length found) 0 found s db1 0 0
                 = (Inr (succ, fail), s', db')"
      by blast
    let ?c = "\<lparr>success = succ, failed = fail, total = length found\<rparr>"
    have run: "indexContent w disk s db options = (Inr ?c, s', db')"
      using sc ne del loop
      by (simp add: indexContent_def table_of_def embedding_options_of_def Let_def)
    from index_loop_counts [OF loop] index_loop_outcomes [OF loop] run del
    have "indexContent w disk s db options = (Inr ?c, s', db') \<and>
         total ?c = length found \<and> success ?c + failed ?c = length found \<and>
         execute_delete db ?tbl = Inr db1 \<and>
         success ?c = length (filter id (outcomes w ?eo ?tbl found s db1)) \<and>
         failed ?c = length (filter Not (outcomes w ?eo ?tbl found s db1))"
      by simp
    then show ?thesis by blast
  qed
  show ?thesis
  proof (intro conjI impI)
    assume "indexContent w disk s db options = (Inr c, s', db')"
    then have "success c + failed c = total c \<and>
      (\<exists>files. scan disk options = Inr files \<and> total c = length files \<and>
         (files \<noteq> [] \<longrightarrow>
            (\<exists>db1. execute_delete db ?tbl = Inr db1 \<and>
               success c = length (filter id (outcomes w ?eo ?tbl files s db1)) \<and>
               failed c = length (filter Not (outcomes w ?eo ?tbl files s db1)))))"
      by (rule completed)
    then show "success c + failed c = total c"
      and "\<exists>files. scan disk options = Inr files \<and> total c = length files \<and>
         (files \<noteq> [] \<longrightarrow>
            (\<exists>db1. execute_delete db ?tbl = Inr db1 \<and>
               success c = length (filter id (outcomes w ?eo ?tbl files s db1)) \<and>
               failed c = length (filter Not (outcomes w ?eo ?tbl files s db1))))"
      by simp_all
  next
    assume a: "scan disk options = Inr found \<and> found \<noteq> [] \<and>
      tables db ?tbl \<noteq> None \<and>
      (\<forall>i f. report (onProgress options) i (length found) f = None)"
    then have "scan disk options = Inr found" "found \<noteq> []" "tables db ?tbl \<noteq> None"
      "\<forall>i f. report (onProgress options) i (length found) f = None"
      by simp_all
    then show "\<exists>c s' db' db1. indexContent w disk s db options = (Inr c, s', db') \<and>
         total c = length found \<and> success c + failed c = length found \<and>
         execute_delete db ?tbl = Inr db1 \<and>
         success c = length (filter id (outcomes w ?eo ?tbl found s db1)) \<and>
         failed c = length (filter Not (outcomes w ?eo ?tbl found s db1))"
      by (rule returns)
  qed
qed

lemma scan_demo_disk:
  "scan demo_disk demo_options =
     Inr [\<lparr>fullPath = [''site'', ''content'', ''root-file.md''],
             relativePath = ''root-file.md'', folder = ''root''\<rparr>,
          \<lparr>fullPath = [''site'', ''content'', ''nested'', ''my-article.md''],
             relativePath = ''nested/my-article.md'', folder = ''nested''\<rparr>,
          \<lparr>fullPath = [''site'', ''content'', ''broken.md''],
             relativePath = ''broken.md'', folder = ''root''\<rparr>]"
  by (simp add: scan_def demo_disk_def demo_options_def path_join_def startsWith_def
      extname_def relative_def dirname_def Let_def)

lemma demo_cleared:
  "execute_delete demo_store ''articles'' =
     Inr \<lparr>tables = [''articles'' \<mapsto> \<lparr>rows = [], seq = 3\<rparr>], executed = [Delete ''articles'']\<rparr>"
  by (simp add: execute_delete_def demo_store_def)

lemma demo_outcomes:
  "outcomes demo_world no_options ''articles''
     [\<lparr>fullPath = [''site'', ''content'', ''root-file.md''],
             relativePath = ''root-file.md'', folder = ''root''\<rparr>,
          \<lparr>fullPath = [''site'', ''content'', ''nested'', ''my-article.md''],
             relativePath = ''nested/my-article.md'', folder = ''nested''\<rparr>,
          \<lparr>fullPath = [''site'', ''content'', ''broken.md''],
             relativePath = ''broken.md'', folder = ''root''\<rparr>]
     fresh
     \<lparr>tables = [''articles'' \<mapsto> \<lparr>rows = [], seq = 3\<rparr>], executed = [Delete ''articles'']\<rparr>
   = [True, True, False]"
  by (simp add: file_outcome_def no_options_def processFile_def demo_world_def
      demo_readFile_def demo_matter_def generateEmbedding_def generateLocalEmbedding_def
      fresh_def insertDocument_def execute_insert_def slug_of_def strip_md_def
      endsWith_def replace_all_def Let_def)

theorem indexContent_counts_witness:
  "\<exists>s' db'. indexContent demo_world demo_disk fresh demo_store demo_options =
     (Inr \<lparr>success = 2, failed = 1, total = 3\<rparr>, s', db')"
proof -
  let ?found = "[\<lparr>fullPath = [''site'', ''content'', ''root-file.md''],
             relativePath = ''root-file.md'', folder = ''root''\<rparr>,
          \<lparr>fullPath = [''site'', ''content'', ''nested'', ''my-article.md''],
             relativePath = ''nested/my-article.md'', folder = ''nested''\<rparr>,
          \<lparr>fullPath = [''site'', ''content'', ''broken.md''],
             relativePath = ''broken.md'', folder = ''root''\<rparr>]"
  have tbl: "table_of demo_options = ''articles''"
    by (simp add: table_of_def demo_options_def)
  have eo: "embedding_options_of demo_options = no_options"
    by (simp add: embedding_options_of_def demo_options_def)
  have tb: "tables demo_store (table_of demo_options) \<noteq> None"
    by (simp add: tbl demo_store_def)
  have cb: "\<forall>i f. report (onProgress demo_options) i (length ?found) f = None"
    by (simp add: demo_options_def)
  have ne: "?found \<noteq> []" by simp
  from conjunct2 [OF indexContent_counts
        [of demo_world demo_disk fresh demo_store demo_options _ _ _ ?found]]
      scan_demo_disk tb cb ne
  obtain c s' db' db1 where
    run: "indexContent demo_world demo_disk fresh demo_store demo_options = (Inr c, s', db')" and
    tot: "total c = length ?found" and
    del: "execute_delete demo_store (table_of demo_options) = Inr db1" and
    su: "success c = length (filter id (outcomes demo_world
        (embedding_options_of demo_options) (table_of demo_options) ?found fresh db1))" and
    fa: "failed c = length (filter Not (outcomes demo_world
        (embedding_options_of demo_options) (table_of demo_options) ?found fresh db1))"
    by blast
  from del demo_cleared have db1: "db1 =
      \<lparr>tables = [''articles'' \<mapsto> \<lparr>rows = [], seq = 3\<rparr>], executed = [Delete ''articles'']\<rparr>"
    by (simp add: tbl)
  from su fa tot have "success c = 2" "failed c = 1" "total c = 3"
    unfolding tbl eo db1 demo_outcomes by simp_all
  then have "c = \<lparr>success = 2, failed = 1, total = 3\<rparr>" by (cases c) simp
  with run show ?thesis by blast
qed

subsection \<open>What a run stores\<close>

lemma execute_insert_rows:
  assumes "execute_insert w db tbl d = Inr db'"
  shows "\<exists>t r. tables db tbl = Some t \<and>
           tables db' = (tables db)(tbl \<mapsto> \<lparr>rows = rows t @ [r], seq = seq t + 1\<rparr>) \<and>
           row_slug r = doc_slug d \<and> row_title r = doc_title d \<and>
           row_folder r = doc_folder d \<and> row_embedding r = Some (doc_embedding d)"
  using assms
  by (auto simp: execute_insert_def Let_def split: option.splits if_splits)

lemma index_loop_rows:
  assumes "index_loop w eo tbl cb n i files s db succ fail = (res, s', db')"
    and "tables db' tbl = Some t'" and "r \<in> set (rows t')"
  shows "(\<exists>t. tables db tbl = Some t \<and> r \<in> set (rows t)) \<or>
         (\<exists>f s0 d s1. f \<in> set files \<and> processFile w s0 f eo = (Inr d, s1) \<and>
            row_slug r = doc_slug d \<and> row_title r = doc_title d \<and>
            row_folder r = doc_folder d \<and> row_embedding r = Some (doc_embedding d))"
  using assms
proof (induction files arbitrary: i s db succ fail)
  case Nil
  then show ?case by simp
next
  case (Cons f rest)
  let ?from = "\<lambda>fs. \<exists>g s0 d s1. g \<in> set fs \<and> processFile w s0 g eo = (Inr d, s1) \<and>
            row_slug r = doc_slug d \<and> row_title r = doc_title d \<and>
            row_folder r = doc_folder d \<and> row_embedding r = Some (doc_embedding d)"
  have later: "?from (f # rest)" if "?from rest"
  proof -
    from that obtain g s0 d s1 where "g \<in> set rest" "processFile w s0 g eo = (Inr d, s1)"
      "row_slug r = doc_slug d" "row_title r = doc_title d"
      "row_folder r = doc_folder d" "row_embedding r = Some (doc_embedding d)"
      by blast
    then have "g \<in> set (f # rest) \<and> processFile w s0 g eo = (Inr d, s1) \<and>
            row_slug r = doc_slug d \<and> row_title r = doc_title d \<and>
            row_folder r = doc_folder d \<and> row_embedding r = Some (doc_embedding d)"
      by simp
    then show ?thesis by blast
  qed
  show ?case
  proof (cases "report cb (i + 1) n (relativePath f)")
    case (Some e)
    with Cons.prems show ?thesis by simp
  next
    case None
    obtain pr s1 where pf: "processFile w s f eo = (pr, s1)"
      by (cases "processFile w s f eo")
    show ?thesis
    proof (cases pr)
      case (Inl e)
      with Cons.prems None pf
      have "index_loop w eo tbl cb n (i + 1) rest s1 db succ (fail + 1) = (res, s', db')"
        by simp
      from Cons.IH [OF this Cons.prems(2,3)] later show ?thesis by blast
    next
      case (Inr d)
      show ?thesis
      proof (cases "insertDocument w db d tbl")
        case (Inl e)
        with Cons.prems None pf Inr
        have "index_loop w eo tbl cb n (i + 1) rest s1 db succ (fail + 1) = (res, s', db')"
          by simp
        from Cons.IH [OF this Cons.prems(2,3)] later show ?thesis by blast
      next
        case ins: (Inr db1)
        with Cons.prems None pf Inr
        have "index_loop w eo tbl cb n (i + 1) rest s1 db1 (succ + 1) fail = (res, s', db')"
          by simp
        from Cons.IH [OF this Cons.prems(2,3)]
        consider (old) t where "tables db1 tbl = Some t" "r \<in> set (rows t)"
          | (new) "?from rest"
          by blast
        then show ?thesis
        proof cases
          case old
          from ins obtain t0 r0 where
            t0: "tables db tbl = Some t0" and
            upd: "tables db1 = (tables db)(tbl \<mapsto> \<lparr>rows = rows t0 @ [r0], seq = seq t0 + 1\<rparr>)" and
            r0: "row_slug r0 = doc_slug d" "row_title r0 = doc_title d"
              "row_folder r0 = doc_folder d" "row_embedding r0 = Some (doc_embedding d)"
            using execute_insert_rows [of w db tbl d db1]
            by (auto simp: insertDocument_def)
          from old upd have "r \<in> set (rows t0) \<or> r = r0" by auto
          then show ?thesis
          proof
            assume "r \<in> set (rows t0)"
            with t0 show ?thesis by simp
          next
            assume "r = r0"
            with r0 pf Inr have "f \<in> set (f # rest) \<and> processFile w s f eo = (Inr d, s1) \<and>
              row_slug r = doc_slug d \<and> row_title r = doc_title d \<and>
              row_folder r = doc_folder d \<and> row_embedding r = Some (doc_embedding d)"
              by simp
            then show ?thesis by blast
          qed
        next
          case new
          with later show ?thesis by blast
        qed
      qed
    qed
  qed
qed

lemma indexContent_rows:
  assumes run: "indexContent w disk s db options = (res, s', db')"
    and sc: "scan disk options = Inr files" and ne: "files \<noteq> []"
    and tb: "tables db' (table_of options) = Some t" and r: "r \<in> set (rows t)"
  shows "\<exists>f s0 d s1. f \<in> set files \<and>
           processFile w s0 f (embedding_options_of options) = (Inr d, s1) \<and>
           row_slug r = doc_slug d \<and> row_title r = doc_title d \<and>
           row_folder r = doc_folder d \<and> row_embedding r = Some (doc_embedding d)"
proof (cases "execute_delete db (table_of options)")
  case (Inl e)
  then have "tables db (table_of options) = None"
    by (auto simp: execute_delete_def split: option.splits)
  moreover from run sc ne Inl have "db' = db"
    by (simp add: indexContent_def table_of_def)
  ultimately show ?thesis using tb by simp
next
  case (Inr db1)
  then obtain t1 where t1: "tables db1 (table_of options) = Some t1" "rows t1 = []"
    by (auto simp: execute_delete_def split: option.splits)
  obtain lr where loop: "index_loop w (embedding_options_of options) (table_of options)
      (onProgress options) (length files) 0 files s db1 0 0 = (lr, s', db')"
    using run sc ne Inr
    by (cases "index_loop w (embedding_options_of options) (table_of options)
      (onProgress options) (length files) 0 files s db1 0 0")
      (auto simp: indexContent_def table_of_def embedding_options_of_def Let_def
        split: sum.splits prod.splits)
  from index_loop_rows [OF loop tb r] t1 show ?thesis by auto
qed

subsection \<open>The length of a stored embedding\<close>

lemma length_padEmbedding: "length (padEmbedding v n) = n"
  using splice_fill_prefix [of v n 0]
  by (cases "length v < n") (auto simp: padEmbedding_def slice0_def)

lemma generateLocalEmbedding_length:
  "generateLocalEmbedding w s text n = (Inr v, s') \<Longrightarrow> length v = n"
  by (auto simp: generateLocalEmbedding_def Let_def length_padEmbedding
      split: if_splits option.splits sum.splits)

lemma generateGeminiEmbedding_verbatim:
  "generateGeminiEmbedding w s text k = (Inr v, s') \<Longrightarrow> \<exists>key t. embedContent w key t = Inr v"
  by (auto simp: generateGeminiEmbedding_def Let_def
      split: if_splits option.splits sum.splits)

lemma generateOpenAIEmbedding_verbatim:
  "generateOpenAIEmbedding w s text k n = (Inr v, s') \<Longrightarrow>
   \<exists>key t model resp others. fetch w key t model n = Inr resp \<and> body_json resp = Inr (v # others)"
  by (auto simp: generateOpenAIEmbedding_def Let_def
      split: if_splits option.splits sum.splits list.splits) blast+

lemma generateEmbedding_result:
  assumes "generateEmbedding w s text eo = (Inr v, s')"
  shows "(provider_of eo = ''local'' \<longrightarrow> length v = dimensions_of eo) \<and>
         (provider_of eo = ''gemini'' \<longrightarrow> (\<exists>key t. embedContent w key t = Inr v)) \<and>
         (provider_of eo = ''openai'' \<longrightarrow>
            (\<exists>key t model resp others.
               fetch w key t model (dimensions_of eo) = Inr resp \<and>
               body_json resp = Inr (v # others)))"
proof -
  have "length v = dimensions_of eo" if "provider_of eo = ''local''"
    using assms that generateLocalEmbedding_length
    by (auto simp: generateEmbedding_def provider_of_def dimensions_of_def Let_def)
  moreover have "\<exists>key t. embedContent w key t = Inr v" if "provider_of eo = ''gemini''"
    using assms that generateGeminiEmbedding_verbatim
    by (auto simp: generateEmbedding_def provider_of_def dimensions_of_def Let_def)
  moreover have "\<exists>key t model resp others.
               fetch w key t model (dimensions_of eo) = Inr resp \<and>
               body_json resp = Inr (v # others)" if "provider_of eo = ''openai''"
    using assms that generateOpenAIEmbedding_verbatim
    by (auto simp: generateEmbedding_def provider_of_def dimensions_of_def Let_def)
  ultimately show ?thesis by blast
qed

lemma processFile_embedding:
  "processFile w s f eo = (Inr d, s') \<Longrightarrow>
   \<exists>text s0. generateEmbedding w s0 text eo = (Inr (doc_embedding d), s')"
  by (auto simp: processFile_def Let_def split: sum.splits prod.splits) blast

text \<open>
  Claim C1, as the code has it. After a run of \<open>indexContent\<close> that found files, every
  row of the table holds an embedding. With the \<open>local\<close> provider (the default) its
  length is exactly the configured dimensionality (768 by default), since
  \<open>padEmbedding\<close> is applied when it is generated. With \<open>gemini\<close> or \<open>openai\<close> the
  stored vector is the backend's answer as it came, neither padded nor truncated: for
  \<open>openai\<close> the answer to a request carrying the configured dimensionality, for
  \<open>gemini\<close> the answer to a request that does not carry it.
\<close>

theorem indexContent_stored_embedding:
  assumes "indexContent w disk s db options = (res, s', db')"
    and "scan disk options = Inr files" and "files \<noteq> []"
    and "tables db' (table_of options) = Some t" and "r \<in> set (rows t)"
  shows "\<exists>v. row_embedding r = Some v \<and>
     (provider_of (embedding_options_of options) = ''local'' \<longrightarrow>
        length v = dimensions_of (embedding_options_of options)) \<and>
     (provider_of (embedding_options_of options) = ''gemini'' \<longrightarrow>
        (\<exists>key text. embedContent w key text = Inr v)) \<and>
     (provider_of (embedding_options_of options) = ''openai'' \<longrightarrow>
        (\<exists>key text model resp others.
           fetch w key text model (dimensions_of (embedding_options_of options)) = Inr resp \<and>
           body_json resp = Inr (v # others)))"
proof -
  from indexContent_rows [OF assms] obtain f s0 d s1 where
    pf: "processFile w s0 f (embedding_options_of options) = (Inr d, s1)" and
    emb: "row_embedding r = Some (doc_embedding d)"
    by blast
  from processFile_embedding [OF pf] obtain inp s2 where
    "generateEmbedding w s2 inp (embedding_options_of options) = (Inr (doc_embedding d), s1)"
    by blast
  from generateEmbedding_result [OF this] emb show ?thesis by simp
qed

lemma demo_options_fields:
  "embeddingOptions demo_options = None" "tableName demo_options = None"
  "onProgress demo_options = None"
  by (simp_all add: demo_options_def)

lemma demo_run_slugs:
  "map_option (map row_slug \<circ> rows) (tables (snd (snd
      (indexContent demo_world demo_disk fresh demo_store demo_options))) ''articles'')
   = Some [''root-file'', ''nested/my-article'']"
  by (simp add: indexContent_def scan_demo_disk demo_options_fields no_options_def
      execute_delete_def demo_store_def processFile_def demo_world_def demo_readFile_def
      demo_matter_def generateEmbedding_def generateLocalEmbedding_def fresh_def
      insertDocument_def execute_insert_def slug_of_def strip_md_def endsWith_def
      replace_all_def Let_def)

theorem indexContent_stored_embedding_witness:
  "\<exists>res s' db' t r v.
     indexContent demo_world demo_disk fresh demo_store demo_options = (res, s', db') \<and>
     tables db' ''articles'' = Some t \<and> r \<in> set (rows t) \<and>
     row_embedding r = Some v \<and> length v = 768"
proof -
  obtain res s' db' where
    run: "indexContent demo_world demo_disk fresh demo_store demo_options = (res, s', db')"
    by (cases "indexContent demo_world demo_disk fresh demo_store demo_options")
  with demo_run_slugs obtain t where
    t: "tables db' ''articles'' = Some t" and
    slugs: "map row_slug (rows t) = [''root-file'', ''nested/my-article'']"
    by auto
  from slugs obtain r where r: "r \<in> set (rows t)" by (cases "rows t") auto
  have tbl: "table_of demo_options = ''articles''"
    by (simp add: table_of_def demo_options_def)
  have eo: "embedding_options_of demo_options = no_options"
    by (simp add: embedding_options_of_def demo_options_def)
  have ne: "[\<lparr>fullPath = [''site'', ''content'', ''root-file.md''],
             relativePath = ''root-file.md'', folder = ''root''\<rparr>,
          \<lparr>fullPath = [''site'', ''content'', ''nested'', ''my-article.md''],
             relativePath = ''nested/my-article.md'', folder = ''nested''\<rparr>,
          \<lparr>fullPath = [''site'', ''content'', ''broken.md''],
             relativePath = ''broken.md'', folder = ''root''\<rparr>] \<noteq> []"
    by simp
  from indexContent_stored_embedding [OF run scan_demo_disk ne, unfolded tbl, OF t r]
  obtain v where "row_embedding r = Some v" "length v = 768"
    by (auto simp: eo provider_of_def dimensions_of_def no_options_def)
  with run t r show ?thesis by blast
qed

lemma gemini_512_fields:
  "embeddingOptions gemini_512 =
     Some \<lparr>provider = Some ''gemini'', apiKey = Some ''secret'',
           dimensions = Some 512, maxLength = None\<rparr>"
  "tableName gemini_512 = None" "onProgress gemini_512 = None"
  by (simp_all add: gemini_512_def demo_options_def)

lemma scan_gemini_512: "scan demo_disk gemini_512 = scan demo_disk demo_options"
  by (simp add: scan_def gemini_512_def demo_options_def)

text \<open>
  With the Gemini backend answering with its native 768 numbers and a configured
  dimensionality of 512, both stored embeddings have length 768.
\<close>

theorem stored_embedding_length_counterexample:
  "map_option (map (\<lambda>r. map_option length (row_embedding r)) \<circ> rows)
     (tables (snd (snd (indexContent demo_world demo_disk fresh demo_store gemini_512)))
        ''articles'')
   = Some [Some 768, Some 768] \<and>
   provider_of (embedding_options_of gemini_512) = ''gemini'' \<and>
   dimensions_of (embedding_options_of gemini_512) = 512"
  by (simp add: indexContent_def scan_gemini_512 scan_demo_disk gemini_512_fields
      execute_delete_def demo_store_def processFile_def demo_world_def demo_readFile_def
      demo_matter_def generateEmbedding_def generateGeminiEmbedding_def or_else_def
      truthy_def fresh_def insertDocument_def execute_insert_def Let_def
      slug_of_def strip_md_def endsWith_def replace_all_def
      provider_of_def dimensions_of_def embedding_options_of_def)

subsection \<open>search\<close>

lemma with_distance_Inr:
  "with_distance w q rs = Inr ds \<Longrightarrow>
   map fst ds = rs \<and>
   (\<forall>p \<in> set ds. vector_distance_cos w (the (row_embedding (fst p))) q = Inr (snd p))"
  by (induction rs arbitrary: ds) (auto split: sum.splits)

lemma with_distance_Nil: "with_distance w q [] = Inr []"
  by simp

lemma execute_select_Inr:
  assumes "execute_select w db tbl q n = (Inr out, db')"
  shows "\<exists>t. tables db tbl = Some t \<and> sorted (map snd out) \<and> length out \<le> n \<and>
    (\<forall>p \<in> set out. fst p \<in> set (rows t) \<and> row_embedding (fst p) \<noteq> None \<and>
       vector_distance_cos w (the (row_embedding (fst p))) q = Inr (snd p))"
proof -
  from assms obtain t ds where
    t: "tables db tbl = Some t" and
    ds: "with_distance w q (filter (\<lambda>r. row_embedding r \<noteq> None) (rows t)) = Inr ds" and
    out: "out = take n (sort_key snd ds)"
    by (auto simp: execute_select_def split: option.splits sum.splits)
  from with_distance_Inr [OF ds] have
    fsts: "map fst ds = filter (\<lambda>r. row_embedding r \<noteq> None) (rows t)" and
    dist: "\<forall>p \<in> set ds. vector_distance_cos w (the (row_embedding (fst p))) q = Inr (snd p)"
    by simp_all
  have "sorted (map snd (sort_key snd ds))" by simp
  then have "sorted (take n (map snd (sort_key snd ds)))" by (rule sorted_wrt_take)
  then have srt: "sorted (map snd out)" by (simp add: out take_map)
  have len: "length out \<le> n" by (simp add: out)
  have mem: "fst p \<in> set (rows t) \<and> row_embedding (fst p) \<noteq> None \<and>
       vector_distance_cos w (the (row_embedding (fst p))) q = Inr (snd p)"
    if "p \<in> set out" for p
  proof -
    from that have p: "p \<in> set ds" by (auto simp: out dest: in_set_takeD)
    then have "fst p \<in> set (map fst ds)" by simp
    with fsts have "fst p \<in> set (rows t) \<and> row_embedding (fst p) \<noteq> None" by simp
    with dist p show ?thesis by blast
  qed
  from t srt len mem show ?thesis by blast
qed

lemma format_rows_Inr:
  "format_rows w xs = Inr out \<Longrightarrow>
   map res_distance out = map snd xs \<and>
   (\<forall>res \<in> set out. \<exists>p \<in> set xs. res_id res = row_id (fst p) \<and>
      res_slug res = row_slug (fst p) \<and> res_title res = row_title (fst p) \<and>
      res_content res = row_content (fst p) \<and> res_folder res = row_folder (fst p) \<and>
      res_distance res = snd p)"
proof (induction xs arbitrary: out)
  case Nil
  then show ?case by simp
next
  case (Cons x xs)
  obtain r d where x: "x = (r, d)" by (cases x)
  from Cons.prems x obtain ts rest where
    rest: "format_rows w xs = Inr rest" and
    out: "out = \<lparr>res_id = row_id r, res_slug = row_slug r, res_title = row_title r,
                     res_content = row_content r, res_folder = row_folder r,
                     res_tags = ts, res_distance = d,
                     res_created_at = row_created_at r\<rparr> # rest"
    by (auto split: sum.splits)
  from Cons.IH [OF rest] show ?case
    by (auto simp: out x)
qed

text \<open>
  Claim C6. The sequence a \<open>search\<close> call returns holds only rows of the table whose
  embedding is not null, each with the engine's cosine distance between its embedding
  and the embedding of the query; it is in ascending order of distance and has at most
  \<open>limit\<close> entries (10 by default). When the table has no row with an embedding, in
  particular when it is empty, and the query was embedded, the result is the empty
  sequence and not an error.
\<close>

theorem search_ranked:
  "(search w s db options = (Inr results, s', db') \<longrightarrow>
      (\<exists>q s1 t.
         generateEmbedding w s (query options) (search_options_of options) = (Inr q, s1) \<and>
         tables db (search_table_of options) = Some t \<and>
         sorted (map res_distance results) \<and>
         length results \<le> limit_of options \<and>
         (\<forall>res \<in> set results. \<exists>r \<in> set (rows t).
            row_embedding r \<noteq> None \<and> res_id res = row_id r \<and> res_slug res = row_slug r \<and>
            vector_distance_cos w (the (row_embedding r)) q = Inr (res_distance res)))) \<and>
   (generateEmbedding w s (query options) (search_options_of options) = (Inr q0, s0) \<and>
    tables db (search_table_of options) = Some t0 \<and>
    (\<forall>r \<in> set (rows t0). row_embedding r = None) \<longrightarrow>
      fst (search w s db options) = Inr [])"
proof -
  let ?eo = "search_options_of options"
  let ?tbl = "search_table_of options"
  have ranked: "\<exists>q s1 t.
         generateEmbedding w s (query options) ?eo = (Inr q, s1) \<and>
         tables db ?tbl = Some t \<and>
         sorted (map res_distance results) \<and>
         length results \<le> limit_of options \<and>
         (\<forall>res \<in> set results. \<exists>r \<in> set (rows t).
            row_embedding r \<noteq> None \<and> res_id res = row_id r \<and> res_slug res = row_slug r \<and>
            vector_distance_cos w (the (row_embedding r)) q = Inr (res_distance res))"
    if run: "search w s db options = (Inr results, s', db')"
  proof -
    from run obtain q s1 out db1 where
      gen: "generateEmbedding w s (query options) ?eo = (Inr q, s1)" and
      sel: "execute_select w db ?tbl q (limit_of options) = (Inr out, db1)" and
      fmt: "format_rows w out = Inr results"
      by (auto simp: search_def search_options_of_def search_table_of_def limit_of_def
          Let_def split: sum.splits prod.splits)
    from execute_select_Inr [OF sel] obtain t where
      t: "tables db ?tbl = Some t" and srt: "sorted (map snd out)" and
      len: "length out \<le> limit_of options" and
      mem: "\<forall>p \<in> set out. fst p \<in> set (rows t) \<and> row_embedding (fst p) \<noteq> None \<and>
         vector_distance_cos w (the (row_embedding (fst p))) q = Inr (snd p)"
      by blast
    from format_rows_Inr [OF fmt] have
      dists: "map res_distance results = map snd out" and
      src: "\<forall>res \<in> set results. \<exists>p \<in> set out. res_id res = row_id (fst p) \<and>
        res_slug res = row_slug (fst p) \<and> res_title res = row_title (fst p) \<and>
        res_content res = row_content (fst p) \<and> res_folder res = row_folder (fst p) \<and>
        res_distance res = snd p"
      by simp_all
    from dists have "length results = length out"
      by (metis length_map)
    with len have len': "length results \<le> limit_of options" by simp
    have "\<exists>r \<in> set (rows t).
            row_embedding r \<noteq> None \<and> res_id res = row_id r \<and> res_slug res = row_slug r \<and>
            vector_distance_cos w (the (row_embedding r)) q = Inr (res_distance res)"
      if "res \<in> set results" for res
    proof -
      from src that obtain p where "p \<in> set out" "res_id res = row_id (fst p)"
        "res_slug res = row_slug (fst p)" "res_distance res = snd p"
        by blast
      with mem show ?thesis by (intro bexI [of _ "fst p"]) auto
    qed
    with gen t srt dists len' show ?thesis by auto
  qed
  have no_rows: "fst (search w s db options) = Inr []"
    if gen: "generateEmbedding w s (query options) ?eo = (Inr q0, s0)"
      and t0: "tables db ?tbl = Some t0"
      and none: "\<forall>r \<in> set (rows t0). row_embedding r = None"
  proof -
    from none have "filter (\<lambda>r. row_embedding r \<noteq> None) (rows t0) = []"
      by (simp add: filter_empty_conv)
    with gen t0 show ?thesis
      by (simp add: search_def execute_select_def search_options_of_def
          search_table_of_def Let_def)
  qed
  show ?thesis
  proof (intro conjI impI)
    assume "search w s db options = (Inr results, s', db')"
    then show "\<exists>q s1 t.
         generateEmbedding w s (query options) ?eo = (Inr q, s1) \<and>
         tables db ?tbl = Some t \<and>
         sorted (map res_distance results) \<and>
         length results \<le> limit_of options \<and>
         (\<forall>res \<in> set results. \<exists>r \<in> set (rows t).
            row_embedding r \<noteq> None \<and> res_id res = row_id r \<and> res_slug res = row_slug r \<and>
            vector_distance_cos w (the (row_embedding r)) q = Inr (res_distance res))"
      by (rule ranked)
  next
    assume a: "generateEmbedding w s (query options) ?eo = (Inr q0, s0) \<and>
      tables db ?tbl = Some t0 \<and> (\<forall>r \<in> set (rows t0). row_embedding r = None)"
    from a have g: "generateEmbedding w s (query options) ?eo = (Inr q0, s0)" ..
    from a have "tables db ?tbl = Some t0 \<and> (\<forall>r \<in> set (rows t0). row_embedding r = None)" ..
    then have t: "tables db ?tbl = Some t0"
      and n: "\<forall>r \<in> set (rows t0). row_embedding r = None"
      by (rule conjunct1, rule conjunct2)
    from g t n show "fst (search w s db options) = Inr []"
      by (rule no_rows)
  qed
qed

lemma demo_query_embedding:
  "generateEmbedding demo_world fresh (query demo_search) (search_options_of demo_search) =
     (Inr [1, 0],
      \<lparr>cache_local = True, cache_gemini = None,
       calls = [LoadLocalModel, ExtractFeatures ''near things'']\<rparr>)"
  by (simp add: generateEmbedding_def generateLocalEmbedding_def demo_world_def fresh_def
      demo_search_def search_options_of_def no_options_def padEmbedding_def Let_def)

lemma demo_search_slugs:
  "map_sum id (map res_slug) (fst (search demo_world fresh demo_store demo_search)) =
     Inr [''near'', ''far'']"
  using demo_query_embedding
  by (simp add: search_def search_options_of_def execute_select_def demo_store_def
      demo_row_def demo_search_def demo_world_def cosine_distance_def dot_def
      or_else_def Let_def)

theorem search_ranked_witness:
  "\<exists>results s' db'.
     search demo_world fresh demo_store demo_search = (Inr results, s', db') \<and>
     map res_slug results = [''near'', ''far''] \<and>
     sorted (map res_distance results) \<and> length results \<le> 10 \<and>
     fst (search demo_world fresh unembedded_store demo_search) = Inr []"
proof -
  obtain res s' db' where
    run: "search demo_world fresh demo_store demo_search = (res, s', db')"
    by (cases "search demo_world fresh demo_store demo_search")
  with demo_search_slugs obtain results where
    res: "res = Inr results" and slugs: "map res_slug results = [''near'', ''far'']"
    by (cases res) auto
  have lim: "limit_of demo_search = 10"
    by (simp add: limit_of_def demo_search_def)
  have tb: "tables unembedded_store (search_table_of demo_search) =
      Some \<lparr>rows = [demo_row 2 ''unembedded'' None], seq = 2\<rparr>"
    by (simp add: unembedded_store_def search_table_of_def demo_search_def)
  have none: "\<forall>r \<in> set (rows \<lparr>rows = [demo_row 2 ''unembedded'' None], seq = 2\<rparr>).
      row_embedding r = None"
    by (simp add: demo_row_def)
  from search_ranked [of demo_world fresh demo_store demo_search results s' db']
    run res lim
  have "sorted (map res_distance results) \<and> length results \<le> 10"
    by auto
  moreover
  from search_ranked [of demo_world fresh unembedded_store demo_search]
    demo_query_embedding tb none
  have "fst (search demo_world fresh unembedded_store demo_search) = Inr []"
    by blast
  ultimately have "search demo_world fresh demo_store demo_search = (Inr results, s', db') \<and>
     map res_slug results = [''near'', ''far''] \<and>
     sorted (map res_distance results) \<and> length results \<le> 10 \<and>
     fst (search demo_world fresh unembedded_store demo_search) = Inr []"
    using run res slugs by simp
  then show ?thesis by (intro exI)
qed

subsection \<open>Paths of discovered files\<close>

lemma join_snoc: "xs \<noteq> [] \<Longrightarrow> join sep (xs @ [y]) = join sep xs @ sep @ y"
  by (induction sep xs rule: join.induct) auto

lemma join_hd: "xs \<noteq> [] \<Longrightarrow> hd xs \<noteq> [] \<Longrightarrow> join sep xs \<noteq> [] \<and> hd (join sep xs) = hd (hd xs)"
  by (induction sep xs rule: join.induct) auto

lemma common_prefix_append: "common_prefix base (base @ cs) = length base"
  by (induction base) auto

lemma relative_below: "relative base (base @ cs) = join ''/'' cs"
  by (simp add: relative_def common_prefix_append)

lemma dirname_single:
  assumes "nm \<noteq> []" and "CHR ''/'' \<notin> set nm"
  shows "dirname nm = ''.''"
proof -
  from assms have hd: "hd nm \<noteq> CHR ''/''" by (cases nm) auto
  from assms have tl: "CHR ''/'' \<notin> set (tl nm)" by (cases nm) auto
  then have "dropWhile (\<lambda>c. c = CHR ''/'') (rev (tl nm)) = rev (tl nm)"
    by (cases "rev (tl nm)") (auto simp: dropWhile_eq_self_iff)
  moreover from tl have "dropWhile (\<lambda>c. c \<noteq> CHR ''/'') (rev (tl nm)) = []"
    by (auto simp: dropWhile_eq_Nil_conv)
  ultimately show ?thesis using assms hd by (simp add: dirname_def Let_def)
qed

lemma dirname_append:
  assumes A: "A \<noteq> []" "hd A \<noteq> CHR ''/''" and nm: "nm \<noteq> []" "CHR ''/'' \<notin> set nm"
  shows "dirname (A @ ''/'' @ nm) = A"
proof -
  from A obtain a A' where Acons: "A = a # A'" and a: "a \<noteq> CHR ''/''"
    by (cases A) auto
  let ?p = "A @ ''/'' @ nm"
  have rv: "rev (tl ?p) = rev nm @ CHR ''/'' # rev A'"
    by (simp add: Acons)
  from nm have "rev nm \<noteq> []" "hd (rev nm) \<noteq> CHR ''/''"
    by (auto simp: hd_rev) (metis last_in_set)
  then have body: "dropWhile (\<lambda>c. c = CHR ''/'') (rev (tl ?p)) = rev (tl ?p)"
    unfolding rv by (cases "rev nm") auto
  from nm have "dropWhile (\<lambda>c. c \<noteq> CHR ''/'') (rev nm @ CHR ''/'' # rev A')
      = CHR ''/'' # rev A'"
    by (subst dropWhile_append2) auto
  then have cut: "rev (dropWhile (\<lambda>c. c \<noteq> CHR ''/'') (rev (tl ?p))) = A' @ ''/''"
    unfolding rv by simp
  have p: "?p \<noteq> []" "hd ?p = a" by (simp_all add: Acons)
  show ?thesis
    unfolding dirname_def Let_def body rev_rev_ident cut
    using p a by (simp add: Acons)
qed

lemma relative_found:
  "relative base (path_join (base @ ds) nm) = join ''/'' (ds @ [nm])"
  using relative_below [of base "ds @ [nm]"] by (simp add: path_join_def)

lemma folder_found:
  assumes ds: "\<forall>d \<in> set ds. wf_name d \<and> \<not> startsWith d ''.''" and nm: "wf_name nm"
  shows "(let folder = dirname (join ''/'' (ds @ [nm]))
          in if folder = ''.'' then ''root'' else folder) = folder_of (ds @ [nm])"
proof (cases "ds = []")
  case True
  with nm show ?thesis
    by (simp add: dirname_single wf_name_def folder_of_def)
next
  case False
  let ?A = "join ''/'' ds"
  from False ds have d0: "hd ds \<noteq> []" "hd (hd ds) \<noteq> CHR ''/''" "hd (hd ds) \<noteq> CHR ''.''"
    by (cases ds; cases "hd ds"; auto simp: wf_name_def startsWith_def)+
  from join_hd [OF False d0(1)] have A: "?A \<noteq> []" "hd ?A = hd (hd ds)" by simp_all
  from A d0 have "?A \<noteq> ''.''" by (cases ?A) auto
  moreover have "dirname (join ''/'' (ds @ [nm])) = ?A"
    using dirname_append [of ?A nm] A d0 nm False
    by (simp add: join_snoc wf_name_def)
  moreover have "folder_of (ds @ [nm]) = ?A"
    using False by (cases ds) (simp_all add: folder_of_def butlast_append)
  ultimately show ?thesis by (simp add: Let_def)
qed

lemma found_located:
  assumes "\<forall>d \<in> set ds. wf_name d \<and> \<not> startsWith d ''.''" and "wf_name nm"
  shows "located_at base (ds @ [nm])
     (let fullPath = path_join (base @ ds) nm;
          relativePath = relative base fullPath;
          folder = dirname relativePath
      in \<lparr>fullPath = fullPath, relativePath = relativePath,
          folder = (if folder = ''.'' then ''root'' else folder)\<rparr>)"
  using folder_found [OF assms] relative_found [of base ds nm]
  by (auto simp: located_at_def Let_def path_join_def)

lemma wf_dirent_name: "wf_dirent e \<Longrightarrow> wf_name (name e)"
  by (cases e) auto

lemma not_directory: "\<not> isDirectory e \<Longrightarrow> e = FileEnt (name e)"
  by (cases e) auto

lemma findFiles_directory:
  "findFiles e dir base exts excl = Inr files \<Longrightarrow> e = DirEnt (name e) (listing e)"
  by (cases e) auto

lemma findFiles_located:
  "findFiles d dir base exts excl = Inr files \<Longrightarrow> wf_dirent d \<Longrightarrow> dir = base @ ds \<Longrightarrow>
   \<forall>d \<in> set ds. wf_name d \<and> \<not> startsWith d ''.'' \<Longrightarrow> f \<in> set files \<Longrightarrow>
   \<exists>cs \<in> set (listing_paths (listing d)). located_at base (ds @ cs) f"
  and scanEntries_located:
  "scanEntries es dir base exts excl = Inr files \<Longrightarrow> wf_listing es \<Longrightarrow> dir = base @ ds \<Longrightarrow>
   \<forall>d \<in> set ds. wf_name d \<and> \<not> startsWith d ''.'' \<Longrightarrow> f \<in> set files \<Longrightarrow>
   \<exists>cs \<in> set (listing_paths es). located_at base (ds @ cs) f"
proof (induction d dir base exts excl and es dir base exts excl
    arbitrary: files ds f and files ds f rule: findFiles_scanEntries.induct)
  case (1 n entries dir baseDir extensions exclude)
  from "1.prems" have "scanEntries entries dir baseDir extensions exclude = Inr files"
    and "wf_listing entries"
    by simp_all
  from "1.IH" [OF this "1.prems"(3,4,5)] show ?case by simp
next
  case (2 n e dir baseDir extensions exclude)
  then show ?case by simp
next
  case (3 n dir baseDir extensions exclude)
  then show ?case by simp
next
  case (4 dir baseDir extensions exclude)
  then show ?case by simp
next
  case (5 entry rest dir baseDir extensions exclude)
  let ?x = "path_join dir (name entry)"
  from "5.prems" have wfe: "wf_dirent entry" and wfr: "wf_listing rest" by simp_all
  note dir = "5.prems"(3) and good = "5.prems"(4) and f = "5.prems"(5)
  have later: "\<exists>cs \<in> set (listing_paths (entry # rest)). located_at baseDir (ds @ cs) f"
    if "\<exists>cs \<in> set (listing_paths rest). located_at baseDir (ds @ cs) f"
    using that by auto
  show ?case
  proof (cases "isDirectory entry")
    case True
    show ?thesis
    proof (cases "\<not> startsWith (name entry) ''.'' \<and> name entry \<notin> set exclude")
      case visible: True
      from "5.prems"(1) True visible obtain sub fs where
        sub: "findFiles entry ?x baseDir extensions exclude = Inr sub" and
        fs: "scanEntries rest dir baseDir extensions exclude = Inr fs" and
        files: "files = sub @ fs"
        by (auto simp: Let_def split: sum.splits)
      from f files consider "f \<in> set sub" | "f \<in> set fs" by auto
      then show ?thesis
      proof cases
        case 1
        have x: "?x = baseDir @ (ds @ [name entry])"
          by (simp add: path_join_def dir)
        from good visible wf_dirent_name [OF wfe]
        have good': "\<forall>d \<in> set (ds @ [name entry]). wf_name d \<and> \<not> startsWith d ''.''"
          by auto
        from "5.IH"(1) [OF refl True visible sub wfe x good' 1]
        obtain cs where cs: "cs \<in> set (listing_paths (listing entry))"
          and loc: "located_at baseDir ((ds @ [name entry]) @ cs) f"
          by blast
        from findFiles_directory [OF sub] cs
        have "name entry # cs \<in> set (entry_paths entry)"
          by (metis entry_paths.simps(2) image_eqI list.set_map)
        with loc have "name entry # cs \<in> set (listing_paths (entry # rest)) \<and>
            located_at baseDir (ds @ (name entry # cs)) f"
          by simp
        then show ?thesis by blast
      next
        case 2
        from "5.IH"(2) [OF refl True visible sub fs wfr dir good 2] later
        show ?thesis by blast
      qed
    next
      case hidden: False
      from "5.prems"(1) True hidden
      have fs: "scanEntries rest dir baseDir extensions exclude = Inr files"
        by (auto simp: Let_def)
      from "5.IH"(3) [OF refl True hidden fs wfr dir good f] later
      show ?thesis by blast
    qed
  next
    case False
    show ?thesis
    proof (cases "extname (name entry) \<in> set extensions")
      case ext: True
      let ?found = "let fullPath = path_join (baseDir @ ds) (name entry);
          relativePath = relative baseDir fullPath;
          folder = dirname relativePath
        in \<lparr>fullPath = fullPath, relativePath = relativePath,
          folder = (if folder = ''.'' then ''root'' else folder)\<rparr>"
      from "5.prems"(1) False ext obtain fs where
        fs: "scanEntries rest dir baseDir extensions exclude = Inr fs" and
        files: "files = ?found # fs"
        by (auto simp: Let_def dir split: sum.splits)
      from f files consider "f = ?found" | "f \<in> set fs" by auto
      then show ?thesis
      proof cases
        case 1
        from found_located [OF good wf_dirent_name [OF wfe], of baseDir] 1
        have "located_at baseDir (ds @ [name entry]) f" by simp
        moreover from not_directory [OF False]
        have "[name entry] \<in> set (listing_paths (entry # rest))"
          by (metis entry_paths.simps(1) listing_paths.simps(2) list.set_intros(1) set_append UnI1)
        ultimately show ?thesis by blast
      next
        case 2
        from "5.IH"(4) [OF refl False ext refl refl refl fs wfr dir good 2] later
        show ?thesis by blast
      qed
    next
      case noext: False
      from "5.prems"(1) False noext
      have fs: "scanEntries rest dir baseDir extensions exclude = Inr files"
        by (auto simp: Let_def)
      from "5.IH"(5) [OF refl False noext fs wfr dir good f] later
      show ?thesis by blast
    qed
  qed
qed

lemma scan_located:
  assumes "wf_dirent disk" and "scan disk options = Inr files" and "f \<in> set files"
  shows "\<exists>cs \<in> set (listing_paths (listing disk)). located_at (contentPath options) cs f"
  using findFiles_located [of disk "contentPath options" "contentPath options" _ _ files "[]" f]
    assms
  by (simp add: scan_def)

lemma processFile_slug_folder:
  "processFile w s f eo = (Inr d, s') \<Longrightarrow>
   doc_slug d = slug_of (relativePath f) \<and> doc_folder d = folder f"
  by (auto simp: processFile_def Let_def split: sum.splits prod.splits)

text \<open>
  Claim C7. Every file the scan discovers is described by its real location: for some
  component path \<open>cs\<close> of a file below the content root, its relative path is \<open>cs\<close>
  joined by slashes and its folder is the directory part of \<open>cs\<close>, or \<open>root\<close> for a
  file directly at the content root. Every row stored by the run has as slug that
  relative path with the extension \<^verbatim>\<open>.md\<close> or \<^verbatim>\<open>.markdown\<close> stripped and every
  backslash turned into a slash, and as folder that folder. Entry names are those of a
  real directory listing: not empty and without a slash.
\<close>

theorem stored_slug_and_folder:
  assumes "wf_dirent disk"
    and "indexContent w disk s db options = (res, s', db')"
    and "scan disk options = Inr files" and "files \<noteq> []"
    and "tables db' (table_of options) = Some t" and "r \<in> set (rows t)"
  shows "(\<forall>f \<in> set files. \<exists>cs \<in> set (listing_paths (listing disk)).
            located_at (contentPath options) cs f) \<and>
         (\<exists>cs \<in> set (listing_paths (listing disk)).
            row_slug r = replace_all (CHR 0x5C) CHR ''/'' (strip_md (join ''/'' cs)) \<and>
            row_folder r = folder_of cs)"
proof
  show "\<forall>f \<in> set files. \<exists>cs \<in> set (listing_paths (listing disk)).
            located_at (contentPath options) cs f"
    using scan_located [OF assms(1,3)] by blast
next
  from indexContent_rows [OF assms(2-6)] obtain f s0 d s1 where
    f: "f \<in> set files" and
    pf: "processFile w s0 f (embedding_options_of options) = (Inr d, s1)" and
    r: "row_slug r = doc_slug d" "row_folder r = doc_folder d"
    by blast
  from scan_located [OF assms(1,3) f] obtain cs where
    cs: "cs \<in> set (listing_paths (listing disk))" and
    loc: "located_at (contentPath options) cs f"
    by blast
  from processFile_slug_folder [OF pf] r loc
  have "row_slug r = replace_all (CHR 0x5C) CHR ''/'' (strip_md (join ''/'' cs)) \<and>
        row_folder r = folder_of cs"
    by (simp add: located_at_def slug_of_def)
  with cs show "\<exists>cs \<in> set (listing_paths (listing disk)).
            row_slug r = replace_all (CHR 0x5C) CHR ''/'' (strip_md (join ''/'' cs)) \<and>
            row_folder r = folder_of cs"
    by blast
qed

lemma demo_run_slug_folder:
  "map_option (map (\<lambda>r. (row_slug r, row_folder r)) \<circ> rows) (tables (snd (snd
      (indexContent demo_world demo_disk fresh demo_store demo_options))) ''articles'')
   = Some [(''root-file'', ''root''), (''nested/my-article'', ''nested'')]"
  by (simp add: indexContent_def scan_demo_disk demo_options_fields no_options_def
      execute_delete_def demo_store_def processFile_def demo_world_def demo_readFile_def
      demo_matter_def generateEmbedding_def generateLocalEmbedding_def fresh_def
      insertDocument_def execute_insert_def slug_of_def strip_md_def endsWith_def
      replace_all_def Let_def)

theorem stored_slug_and_folder_witness:
  "\<exists>res s' db' t r cs.
     indexContent demo_world demo_disk fresh demo_store demo_options = (res, s', db') \<and>
     tables db' ''articles'' = Some t \<and>
     map (\<lambda>r. (row_slug r, row_folder r)) (rows t) =
       [(''root-file'', ''root''), (''nested/my-article'', ''nested'')] \<and>
     r \<in> set (rows t) \<and> cs \<in> set (listing_paths (listing demo_disk)) \<and>
     row_slug r = replace_all (CHR 0x5C) CHR ''/'' (strip_md (join ''/'' cs)) \<and>
     row_folder r = folder_of cs"
proof -
  obtain res s' db' where
    run: "indexContent demo_world demo_disk fresh demo_store demo_options = (res, s', db')"
    by (cases "indexContent demo_world demo_disk fresh demo_store demo_options")
  with demo_run_slug_folder obtain t where
    t: "tables db' ''articles'' = Some t" and
    stored: "map (\<lambda>r. (row_slug r, row_folder r)) (rows t) =
       [(''root-file'', ''root''), (''nested/my-article'', ''nested'')]"
    by auto
  from stored obtain r where r: "r \<in> set (rows t)" by (cases "rows t") auto
  have tbl: "table_of demo_options = ''articles''"
    by (simp add: table_of_def demo_options_def)
  have wf: "wf_dirent demo_disk"
    by (simp add: demo_disk_def wf_name_def)
  have ne: "[\<lparr>fullPath = [''site'', ''content'', ''root-file.md''],
             relativePath = ''root-file.md'', folder = ''root''\<rparr>,
          \<lparr>fullPath = [''site'', ''content'', ''nested'', ''my-article.md''],
             relativePath = ''nested/my-article.md'', folder = ''nested''\<rparr>,
          \<lparr>fullPath = [''site'', ''content'', ''broken.md''],
             relativePath = ''broken.md'', folder = ''root''\<rparr>] \<noteq> []"
    by simp
  from stored_slug_and_folder [OF wf run scan_demo_disk ne, unfolded tbl, OF t r]
  obtain cs where "cs \<in> set (listing_paths (listing demo_disk))"
    "row_slug r = replace_all (CHR 0x5C) CHR ''/'' (strip_md (join ''/'' cs))"
    "row_folder r = folder_of cs"
    by blast
  with run t stored r have
    "indexContent demo_world demo_disk fresh demo_store demo_options = (res, s', db') \<and>
     tables db' ''articles'' = Some t \<and>
     map (\<lambda>r. (row_slug r, row_folder r)) (rows t) =
       [(''root-file'', ''root''), (''nested/my-article'', ''nested'')] \<and>
     r \<in> set (rows t) \<and> cs \<in> set (listing_paths (listing demo_disk)) \<and>
     row_slug r = replace_all (CHR 0x5C) CHR ''/'' (strip_md (join ''/'' cs)) \<and>
     row_folder r = folder_of cs"
    by simp
  then show ?thesis by (intro exI)
qed

end
